theory Spec2Isabelle
  imports Complex_Main
begin

section \<open>The browser page as the program sees it\<close>

text \<open>
  \<^verbatim>\<open>scripts/deep_research.py\<close> drives a browser page through Playwright. Every call on the
  page or on an element handle either returns a value or raises; the script wraps almost
  all of them in \<^verbatim>\<open>try: ... except Exception\<close>. A call is therefore modelled by its result:
  \<open>Inl (Exception msg)\<close> when it raises, \<open>Inr v\<close> when it returns \<open>v\<close>.
  Python strings are lists of characters, \<open>len\<close> is \<open>length\<close>. Output written with
  \<^verbatim>\<open>print\<close> is not modelled.
\<close>

datatype exn = Exception string

type_synonym 'a res = "exn + 'a"

text \<open>An element handle: what \<^verbatim>\<open>is_visible()\<close> and \<^verbatim>\<open>inner_text()\<close> answer for it.\<close>

record element =
  is_visible :: "bool res"
  inner_text :: "string res"

text \<open>
  A page snapshot: the answers of \<^verbatim>\<open>wait_for_selector(sel, timeout, state="visible")\<close>,
  \<^verbatim>\<open>query_selector(sel)\<close>, \<^verbatim>\<open>query_selector_all(sel)\<close> and \<^verbatim>\<open>inner_text(sel)\<close>.
  A query that finds nothing returns Python's \<^verbatim>\<open>None\<close> (here \<open>Inr None\<close>) or the empty list.
\<close>

record page =
  wait_for_selector :: "string \<Rightarrow> nat \<Rightarrow> element option res"
  query_selector :: "string \<Rightarrow> element option res"
  query_selector_all :: "string \<Rightarrow> element list res"
  page_inner_text :: "string \<Rightarrow> string res"

section \<open>Locator resolution\<close>

text \<open>
  \<^verbatim>\<open>find_element(page, selectors, description, timeout)\<close>: the first selector whose
  \<^verbatim>\<open>wait_for_selector\<close> returns a handle wins; a raise (the timeout) or a \<^verbatim>\<open>None\<close> moves on
  to the next selector. The pair \<^verbatim>\<open>(None, None)\<close> is \<open>None\<close>.
\<close>

fun find_element :: "page \<Rightarrow> string list \<Rightarrow> string \<Rightarrow> nat \<Rightarrow> (element \<times> string) option" where
  "find_element pg [] description timeout = None"
| "find_element pg (selector # selectors) description timeout =
     (case wait_for_selector pg selector timeout of
        Inl e \<Rightarrow> find_element pg selectors description timeout
      | Inr None \<Rightarrow> find_element pg selectors description timeout
      | Inr (Some el) \<Rightarrow> Some (el, selector))"

text \<open>
  \<^verbatim>\<open>find_element_quick(page, selectors, description)\<close>: no waiting; a selector wins when
  \<^verbatim>\<open>query_selector\<close> returns a handle whose \<^verbatim>\<open>is_visible()\<close> is true. Either call raising
  moves on to the next selector.
\<close>

fun find_element_quick :: "page \<Rightarrow> string list \<Rightarrow> string \<Rightarrow> (element \<times> string) option" where
  "find_element_quick pg [] description = None"
| "find_element_quick pg (selector # selectors) description =
     (case query_selector pg selector of
        Inl e \<Rightarrow> find_element_quick pg selectors description
      | Inr None \<Rightarrow> find_element_quick pg selectors description
      | Inr (Some el) \<Rightarrow>
          (case is_visible el of
             Inl e \<Rightarrow> find_element_quick pg selectors description
           | Inr v \<Rightarrow> if v then Some (el, selector)
                      else find_element_quick pg selectors description))"

text \<open>
  What "the selector resolves to a visible element" means for each of the two resolvers:
  the test each one applies to a single selector.
\<close>

definition resolves_wait :: "page \<Rightarrow> nat \<Rightarrow> string \<Rightarrow> bool" where
  "resolves_wait pg timeout selector =
     (case wait_for_selector pg selector timeout of
        Inl e \<Rightarrow> False | Inr None \<Rightarrow> False | Inr (Some el) \<Rightarrow> True)"

definition resolves_quick :: "page \<Rightarrow> string \<Rightarrow> bool" where
  "resolves_quick pg selector =
     (case query_selector pg selector of
        Inl e \<Rightarrow> False
      | Inr None \<Rightarrow> False
      | Inr (Some el) \<Rightarrow> (case is_visible el of Inl e \<Rightarrow> False | Inr v \<Rightarrow> v))"

section \<open>The completion oracle: the poll loop of \<^verbatim>\<open>run_deep_research\<close>\<close>

text \<open>Constants of \<^verbatim>\<open>scripts/config.py\<close>.\<close>

definition DEEP_RESEARCH_TIMEOUT_SECONDS :: int where
  "DEEP_RESEARCH_TIMEOUT_SECONDS = 600"

definition DEEP_RESEARCH_LOADING_SELECTORS :: "string list" where
  \<open>DEEP_RESEARCH_LOADING_SELECTORS =
     [''[aria-label*="loading" i]'',
      ''[aria-label*="searching" i]'',
      ''.progress-indicator'',
      ''[role="progressbar"]'']\<close>

definition DEEP_RESEARCH_REPORT_SELECTORS :: "string list" where
  \<open>DEEP_RESEARCH_REPORT_SELECTORS =
     [''.research-report'',
      ''.report-content'',
      ''[data-report-type]'',
      ''[role="article"]'',
      ''.source-card'']\<close>

text \<open>The selector strings written inline in \<^verbatim>\<open>run_deep_research\<close>.\<close>

definition baseline_source_selector :: string where
  \<open>baseline_source_selector =
     ''.source-card, [data-source-id], .source-item, [class*="source-list"] > *''\<close>

definition source_selector :: string where
  \<open>source_selector =
     ''.source-card, [data-source-id], .source-item, '' @
     ''[class*="source-list"] > *, [class*="source_list"] > *''\<close>

definition spinner_selector :: string where
  \<open>spinner_selector =
     ''[class*="spinner"], [class*="loading"], [class*="progress"], '' @
     ''[class*="searching"], [class*="animat"]''\<close>

definition report_source_selector :: string where
  \<open>report_source_selector =
     ''[class*="source"]:has-text("Deep Research report"), '' @
     ''[class*="source"]:has-text("deep research")''\<close>

text \<open>
  The clock is an input: \<^verbatim>\<open>time.time()\<close> readings are real numbers, and Python's
  \<^verbatim>\<open>int(x)\<close> truncates towards zero.
\<close>

definition py_int :: "real \<Rightarrow> int" where
  "py_int x = (if 0 \<le> x then \<lfloor>x\<rfloor> else \<lceil>x\<rceil>)"

text \<open>
  The loop's variables. \<^verbatim>\<open>initial_source_count\<close>, \<^verbatim>\<open>start_time\<close> and \<^verbatim>\<open>deadline\<close> are
  assigned once before the loop and are passed as arguments. \<^verbatim>\<open>last_status\<close> only feeds
  a \<^verbatim>\<open>print\<close> and is left out.
\<close>

record poll_state =
  last_sources_count :: int
  stable_count :: int
  check_num :: nat

text \<open>
  What one iteration observes: the clock read by the loop test
  \<^verbatim>\<open>time.time() < deadline\<close>, the clock read for \<^verbatim>\<open>elapsed\<close>, and the page the queries of
  this iteration see.
\<close>

record tick_obs =
  t_loop :: real
  t_elapsed :: real
  tick_page :: page

text \<open>
  Source count (lines 401 to 417): a changed count is stored and resets the stability
  counter, an unchanged one increments it, a raising query changes nothing.
\<close>

definition sample_sources :: "page \<Rightarrow> poll_state \<Rightarrow> poll_state" where
  "sample_sources pg st =
     (case query_selector_all pg source_selector of
        Inl e \<Rightarrow> st
      | Inr source_elements \<Rightarrow>
          (let current_count = int (length source_elements) in
           if current_count \<noteq> last_sources_count st
           then st\<lparr>last_sources_count := current_count, stable_count := 0\<rparr>
           else st\<lparr>stable_count := stable_count st + 1\<rparr>))"

text \<open>
  Loading indicators (lines 419 to 428): the first selector with a visible handle sets
  \<^verbatim>\<open>is_loading\<close> and leaves the \<^verbatim>\<open>for\<close>; a raise continues with the next selector.
\<close>

fun loading_scan :: "page \<Rightarrow> string list \<Rightarrow> bool" where
  "loading_scan pg [] = False"
| "loading_scan pg (sel # sels) =
     (case query_selector pg sel of
        Inl e \<Rightarrow> loading_scan pg sels
      | Inr None \<Rightarrow> loading_scan pg sels
      | Inr (Some loader) \<Rightarrow>
          (case is_visible loader of
             Inl e \<Rightarrow> loading_scan pg sels
           | Inr v \<Rightarrow> if v then True else loading_scan pg sels))"

text \<open>
  \<^verbatim>\<open>for s in xs: if s.is_visible(): ...; break\<close> inside one \<^verbatim>\<open>try\<close>: whether a visible
  handle is reached, or the raise that ends the scan before one is.
\<close>

fun first_visible :: "element list \<Rightarrow> bool res" where
  "first_visible [] = Inr False"
| "first_visible (s # ss) =
     (case is_visible s of
        Inl e \<Rightarrow> Inl e
      | Inr v \<Rightarrow> if v then Inr True else first_visible ss)"

text \<open>Spinners (lines 430 to 442); a raise leaves \<^verbatim>\<open>is_loading\<close> as it was, false.\<close>

definition spinner_scan :: "page \<Rightarrow> bool" where
  "spinner_scan pg =
     (case query_selector_all pg spinner_selector of
        Inl e \<Rightarrow> False
      | Inr spinners \<Rightarrow> (case first_visible spinners of Inl e \<Rightarrow> False | Inr b \<Rightarrow> b))"

text \<open>
  The "Deep Research report" source (lines 444 to 458): true when the body of the inner
  \<^verbatim>\<open>if rs.is_visible()\<close> is reached.
\<close>

definition report_source_visible :: "page \<Rightarrow> bool" where
  "report_source_visible pg =
     (case query_selector_all pg report_source_selector of
        Inl e \<Rightarrow> False
      | Inr report_sources \<Rightarrow>
          if report_sources = [] then False
          else (case first_visible report_sources of Inl e \<Rightarrow> False | Inr b \<Rightarrow> b))"

text \<open>The two \<^verbatim>\<open>break\<close>s of the loop, and the loop test failing.\<close>

datatype rule = Primary | Fallback

datatype loop_exit = Complete rule | Timed_out

text \<open>
  One iteration of the \<^verbatim>\<open>while\<close> body (lines 397 to 479): the new state, and the
  \<^verbatim>\<open>break\<close> taken, if any.
\<close>

definition poll_tick :: "int \<Rightarrow> real \<Rightarrow> poll_state \<Rightarrow> tick_obs \<Rightarrow> poll_state \<times> rule option" where
  "poll_tick initial_source_count start_time st ob =
     (let st1 = st\<lparr>check_num := check_num st + 1\<rparr>;
          elapsed = py_int (t_elapsed ob - start_time);
          pg = tick_page ob;
          st2 = sample_sources pg st1;
          is_loading0 = loading_scan pg DEEP_RESEARCH_LOADING_SELECTORS;
          is_loading1 = (if is_loading0 then is_loading0 else spinner_scan pg);
          marker = report_source_visible pg;
          is_loading = (if marker then False else is_loading1);
          st3 = (if marker then st2\<lparr>stable_count := 10\<rparr> else st2);
          new_sources = last_sources_count st3 - initial_source_count
      in if 5 \<le> stable_count st3 \<and> \<not> is_loading \<and> 0 < new_sources
         then (st3, Some Primary)
         else if 12 \<le> stable_count st3 \<and> \<not> is_loading \<and> 60 < elapsed
         then (st3, Some Fallback)
         else (st3, None))"

text \<open>
  The \<^verbatim>\<open>while time.time() < deadline\<close> loop over the recorded iterations. \<open>None\<close>: the
  record ends while the loop is still running.
\<close>

fun poll_loop :: "int \<Rightarrow> real \<Rightarrow> real \<Rightarrow> poll_state \<Rightarrow> tick_obs list \<Rightarrow> (poll_state \<times> loop_exit) option" where
  "poll_loop initial_source_count start_time deadline st [] = None"
| "poll_loop initial_source_count start_time deadline st (ob # obs) =
     (if t_loop ob < deadline
      then (case poll_tick initial_source_count start_time st ob of
              (st', Some r) \<Rightarrow> Some (st', Complete r)
            | (st', None) \<Rightarrow> poll_loop initial_source_count start_time deadline st' obs)
      else Some (st, Timed_out))"

text \<open>
  The three signals of one iteration, named for the statements below: the count the
  source query returns (\<open>None\<close> when it raises), \<^verbatim>\<open>is_loading\<close> as it stands after line 442,
  and an iteration that is inside the deadline, samples the count \<open>c\<close>, is not loading and
  shows no report source.
\<close>

definition sampled_count :: "page \<Rightarrow> int option" where
  "sampled_count pg =
     (case query_selector_all pg source_selector of
        Inl e \<Rightarrow> None
      | Inr source_elements \<Rightarrow> Some (int (length source_elements)))"

definition busy :: "page \<Rightarrow> bool" where
  "busy pg =
     (if loading_scan pg DEEP_RESEARCH_LOADING_SELECTORS then True else spinner_scan pg)"

definition quiet_tick :: "real \<Rightarrow> int \<Rightarrow> tick_obs \<Rightarrow> bool" where
  "quiet_tick deadline c ob =
     (t_loop ob < deadline \<and> sampled_count (tick_page ob) = Some c \<and>
      \<not> busy (tick_page ob) \<and> \<not> report_source_visible (tick_page ob))"

text \<open>\<^verbatim>\<open>elapsed\<close> as computed on line 398.\<close>

definition elapsed_at :: "real \<Rightarrow> tick_obs \<Rightarrow> int" where
  "elapsed_at start_time ob = py_int (t_elapsed ob - start_time)"

section \<open>The extraction chain\<close>

text \<open>
  \<^verbatim>\<open>str.strip()\<close> removes leading and trailing whitespace. Characters stand for the code
  points below 256; Python's whitespace among them is U+0009 to U+000D, U+001C to U+0020,
  U+0085 and U+00A0.
\<close>

definition py_isspace :: "char \<Rightarrow> bool" where
  "py_isspace c =
     ((of_char c :: nat) \<in> {9, 10, 11, 12, 13, 28, 29, 30, 31, 32, 133, 160})"

definition strip :: "string \<Rightarrow> string" where
  "strip s = rev (dropWhile py_isspace (rev (dropWhile py_isspace s)))"

text \<open>\<^verbatim>\<open>not report_text\<close>: the variable is \<^verbatim>\<open>None\<close> or the empty string.\<close>

definition falsy :: "string option \<Rightarrow> bool" where
  "falsy report_text = (case report_text of None \<Rightarrow> True | Some t \<Rightarrow> t = [])"

text \<open>
  The scan both strategy 1 and strategy 2 make over the handles of one selector: the
  stripped texts of the visible handles that are longer than \<open>min_len\<close>, in order; any
  raise ends the scan (the enclosing \<^verbatim>\<open>try\<close> then moves to the next selector).
\<close>

fun collect_texts :: "nat \<Rightarrow> element list \<Rightarrow> string list res" where
  "collect_texts min_len [] = Inr []"
| "collect_texts min_len (el # els) =
     (case is_visible el of
        Inl e \<Rightarrow> Inl e
      | Inr v \<Rightarrow>
          if v then
            (case inner_text el of
               Inl e \<Rightarrow> Inl e
             | Inr raw \<Rightarrow>
                 (case collect_texts min_len els of
                    Inl e \<Rightarrow> Inl e
                  | Inr texts \<Rightarrow>
                      if min_len < length (strip raw) then Inr (strip raw # texts)
                      else Inr texts))
          else collect_texts min_len els)"

text \<open>\<^verbatim>\<open>max(texts, key=len)\<close>: the first of the longest.\<close>

fun max_by_len :: "string \<Rightarrow> string list \<Rightarrow> string" where
  "max_by_len best [] = best"
| "max_by_len best (t # ts) = max_by_len (if length best < length t then t else best) ts"

text \<open>\<^verbatim>\<open>sep.join(texts)\<close>.\<close>

fun join :: "string \<Rightarrow> string list \<Rightarrow> string" where
  "join sep [] = []"
| "join sep [t] = t"
| "join sep (t # u # ts) = t @ sep @ join sep (u # ts)"

definition chat_selectors :: "string list" where
  \<open>chat_selectors =
     [''.to-user-container .message-text-content'',
      ''[data-message-author='bot']'',
      ''[data-message-author='assistant']'',
      ''[class*="response"]'',
      ''[class*="answer"]'']\<close>

text \<open>Strategy 1 (lines 487 to 515): the chat area.\<close>

fun chat_scan :: "page \<Rightarrow> string list \<Rightarrow> string option" where
  "chat_scan pg [] = None"
| "chat_scan pg (sel # sels) =
     (case query_selector_all pg sel of
        Inl e \<Rightarrow> chat_scan pg sels
      | Inr elements \<Rightarrow>
          if elements = [] then chat_scan pg sels
          else (case collect_texts 100 elements of
                  Inl e \<Rightarrow> chat_scan pg sels
                | Inr [] \<Rightarrow> chat_scan pg sels
                | Inr (t # ts) \<Rightarrow> Some (max_by_len t ts)))"

definition strategy1 :: "page \<Rightarrow> string option" where
  "strategy1 pg = chat_scan pg chat_selectors"

text \<open>Strategy 2 (lines 517 to 529): the report selectors of the configuration.\<close>

fun report_scan :: "page \<Rightarrow> string list \<Rightarrow> string option" where
  "report_scan pg [] = None"
| "report_scan pg (sel # sels) =
     (case query_selector_all pg sel of
        Inl e \<Rightarrow> report_scan pg sels
      | Inr elements \<Rightarrow>
          if elements = [] then report_scan pg sels
          else (case collect_texts 50 elements of
                  Inl e \<Rightarrow> report_scan pg sels
                | Inr [] \<Rightarrow> report_scan pg sels
                | Inr (t # ts) \<Rightarrow> Some (join [CHR 0x0A, CHR 0x0A] (t # ts))))"

definition strategy2 :: "page \<Rightarrow> string option \<Rightarrow> string option" where
  "strategy2 pg report_text =
     (if falsy report_text
      then (case report_scan pg DEEP_RESEARCH_REPORT_SELECTORS of
              None \<Rightarrow> report_text | Some t \<Rightarrow> Some t)
      else report_text)"

text \<open>
  Strategy 3 (lines 531 to 553): click the report link, then read the first of five
  containers that is visible and has more than 200 characters.
\<close>

definition opened_report_selectors :: "string list" where
  \<open>opened_report_selectors =
     [''[class*="report"]'', ''[class*="content"]'', ''[role="article"]'', ''main'', ''.content'']\<close>

fun opened_scan :: "page \<Rightarrow> string list \<Rightarrow> string option" where
  "opened_scan pg [] = None"
| "opened_scan pg (sel # sels) =
     (case query_selector pg sel of
        Inl e \<Rightarrow> opened_scan pg sels
      | Inr None \<Rightarrow> opened_scan pg sels
      | Inr (Some el) \<Rightarrow>
          (case is_visible el of
             Inl e \<Rightarrow> opened_scan pg sels
           | Inr v \<Rightarrow>
               if v then
                 (case inner_text el of
                    Inl e \<Rightarrow> opened_scan pg sels
                  | Inr raw \<Rightarrow>
                      if 200 < length (strip raw) then Some (strip raw)
                      else opened_scan pg sels)
               else opened_scan pg sels))"

definition strategy3 :: "unit res \<Rightarrow> page \<Rightarrow> string option \<Rightarrow> string option" where
  "strategy3 click pg report_text =
     (if falsy report_text
      then (case click of
              Inl e \<Rightarrow> report_text
            | Inr u \<Rightarrow>
                (case opened_scan pg opened_report_selectors of
                   None \<Rightarrow> report_text | Some t \<Rightarrow> Some t))
      else report_text)"

text \<open>
  Strategy 4 (lines 555 to 565): the stripped text of the first handle of
  \<^verbatim>\<open>[class*="source"]\<close> is assigned to \<^verbatim>\<open>report_text\<close>; the test
  \<^verbatim>\<open>len(report_text) > 50\<close> that follows guards a \<^verbatim>\<open>print\<close> only.
\<close>

definition sources_panel_selector :: string where
  \<open>sources_panel_selector = ''[class*="source"]''\<close>

definition strategy4 :: "page \<Rightarrow> string option \<Rightarrow> string option" where
  "strategy4 pg report_text =
     (if falsy report_text
      then (case query_selector pg sources_panel_selector of
              Inl e \<Rightarrow> report_text
            | Inr None \<Rightarrow> report_text
            | Inr (Some sources_panel) \<Rightarrow>
                (case inner_text sources_panel of
                   Inl e \<Rightarrow> report_text
                 | Inr raw \<Rightarrow> Some (strip raw)))
      else report_text)"

text \<open>Strategy 5 (lines 567 to 574): the text of \<^verbatim>\<open>body\<close>, not stripped.\<close>

definition strategy5 :: "page \<Rightarrow> string option \<Rightarrow> string option" where
  "strategy5 pg report_text =
     (if falsy report_text
      then (case page_inner_text pg ''body'' of
              Inl e \<Rightarrow> report_text
            | Inr t \<Rightarrow> Some t)
      else report_text)"

text \<open>
  The chain. Strategies 1 and 2 read the page as it is when the loop is left; the click
  of strategy 3 either raises or returns, and what it and strategies 4 and 5 read is the
  page after that click attempt.
\<close>

record capture_env =
  page_at_exit :: page
  report_link_click :: "unit res"
  page_after_click :: page

definition capture :: "capture_env \<Rightarrow> string option" where
  "capture cap =
     strategy5 (page_after_click cap)
       (strategy4 (page_after_click cap)
          (strategy3 (report_link_click cap) (page_after_click cap)
             (strategy2 (page_at_exit cap)
                (strategy1 (page_at_exit cap)))))"

section \<open>\<^verbatim>\<open>run_deep_research\<close>\<close>

text \<open>The returned dictionary: a key that is absent is \<open>None\<close>.\<close>

record outcome =
  success :: bool
  error :: "string option"
  sources_count :: "int option"
  total_sources :: "int option"
  elapsed_seconds :: "int option"
  report :: "string option"

definition failure :: "string \<Rightarrow> outcome" where
  "failure msg =
     \<lparr>success = False, error = Some msg, sources_count = None, total_sources = None,
      elapsed_seconds = None, report = None\<rparr>"

text \<open>
  Steps 1 to 6 (authentication, opening the modal, finding the search input, switching
  the mode, typing, submitting) are the work of collaborators; what the rest of the
  function depends on is how they end: the early \<^verbatim>\<open>return\<close> of line 199, a raise caught
  by the outer \<^verbatim>\<open>except\<close> of line 592, the early \<^verbatim>\<open>return\<close> of line 285, or the request
  submitted.
\<close>

datatype setup_result =
  Not_authenticated | Setup_raised string | No_search_input | Submitted

record run_env =
  setup_end :: setup_result
  start_clock :: real
  baseline_query :: "element list res"
  ticks :: "tick_obs list"
  end_clock :: real
  capture_pages :: capture_env

text \<open>
  Step 7 up to the end of the loop (lines 388 to 479): the deadline, the loop's initial
  variables, and the loop over the recorded iterations.
\<close>

definition wait_for_completion :: "run_env \<Rightarrow> int \<Rightarrow> int \<Rightarrow> (poll_state \<times> loop_exit) option" where
  "wait_for_completion env timeout initial_source_count =
     (let start_time = start_clock env;
          deadline = start_time + real_of_int timeout
      in poll_loop initial_source_count start_time deadline
           \<lparr>last_sources_count = initial_source_count, stable_count = 0, check_num = 0\<rparr>
           (ticks env))"

text \<open>
  \<^verbatim>\<open>run_deep_research(topic, notebook_url, mode, timeout)\<close> from the environment's answers.
  \<open>baseline_query\<close> is the answer to the query of line 390 (selector
  \<open>baseline_source_selector\<close>); it stands outside every inner \<^verbatim>\<open>try\<close>, so its raise
  reaches the outer \<^verbatim>\<open>except\<close>. \<open>None\<close>: the recorded iterations end before the loop
  does.
\<close>

definition run_deep_research :: "run_env \<Rightarrow> int option \<Rightarrow> outcome option" where
  "run_deep_research env timeout_arg =
     (let timeout = (case timeout_arg of None \<Rightarrow> DEEP_RESEARCH_TIMEOUT_SECONDS | Some t \<Rightarrow> t) in
      case setup_end env of
        Not_authenticated \<Rightarrow> Some (failure ''Not authenticated'')
      | Setup_raised msg \<Rightarrow> Some (failure msg)
      | No_search_input \<Rightarrow> Some (failure ''Could not find search input in Sources modal'')
      | Submitted \<Rightarrow>
          (case baseline_query env of
                Inl (Exception msg) \<Rightarrow> Some (failure msg)
              | Inr els \<Rightarrow>
                  (let initial_source_count = int (length els)
                   in case wait_for_completion env timeout initial_source_count of
                        None \<Rightarrow> None
                      | Some (st, ex) \<Rightarrow>
                          (let total_elapsed = py_int (end_clock env - start_clock env);
                               new_sources = last_sources_count st - initial_source_count;
                               report_text = capture (capture_pages env)
                           in if falsy report_text
                              then Some \<lparr>success = False,
                                         error = Some ''Could not capture research results'',
                                         sources_count = Some new_sources,
                                         total_sources = None,
                                         elapsed_seconds = Some total_elapsed,
                                         report = None\<rparr>
                              else Some \<lparr>success = True,
                                         error = None,
                                         sources_count = Some new_sources,
                                         total_sources = Some (last_sources_count st),
                                         elapsed_seconds = Some total_elapsed,
                                         report = report_text\<rparr>))))"

section \<open>Notions used in the statements\<close>


text \<open>
  The handles of one selector as C7 speaks of them, read off the page's answers alone. \<open>no_raise\<close>: \<^verbatim>\<open>is_visible()\<close> returns for every handle, and \<^verbatim>\<open>inner_text()\<close>
  returns for every visible one. \<open>long_texts\<close>: the stripped texts of the visible
  handles, in order, that are longer than \<open>min_len\<close>. \<open>selector_texts\<close>: what a chat
  selector offers strategy 1, nothing when its query or a call on a handle raises.
\<close>

definition no_raise :: "element list \<Rightarrow> bool" where
  "no_raise els =
     list_all (\<lambda>el. case is_visible el of
                   Inl e \<Rightarrow> False
                 | Inr v \<Rightarrow>
                     if v then (case inner_text el of Inl e \<Rightarrow> False | Inr raw \<Rightarrow> True)
                     else True) els"

definition long_texts :: "nat \<Rightarrow> element list \<Rightarrow> string list" where
  "long_texts min_len els =
     filter (\<lambda>t. min_len < length t)
       (map (\<lambda>el. strip (projr (inner_text el)))
          (filter (\<lambda>el. is_visible el = Inr True) els))"

definition selector_texts :: "page \<Rightarrow> string \<Rightarrow> string list" where
  "selector_texts pg sel =
     (case query_selector_all pg sel of
        Inl e \<Rightarrow> []
      | Inr els \<Rightarrow> if no_raise els then long_texts 100 els else [])"

text \<open>
  "All five strategies exhausted": each strategy, started on an unset \<^verbatim>\<open>report_text\<close>,
  leaves it unset or empty.
\<close>

definition all_exhausted :: "capture_env \<Rightarrow> bool" where
  "all_exhausted cap =
     (falsy (strategy1 (page_at_exit cap)) \<and>
      falsy (strategy2 (page_at_exit cap) None) \<and>
      falsy (strategy3 (report_link_click cap) (page_after_click cap) None) \<and>
      falsy (strategy4 (page_after_click cap) None) \<and>
      falsy (strategy5 (page_after_click cap) None))"

section \<open>Concrete pages and runs\<close>

text \<open>Small inputs on which the properties below are evaluated.\<close>

definition visible_element :: "string \<Rightarrow> element" where
  "visible_element t = \<lparr>is_visible = Inr True, inner_text = Inr t\<rparr>"

definition hidden_element :: "string \<Rightarrow> element" where
  "hidden_element t = \<lparr>is_visible = Inr False, inner_text = Inr t\<rparr>"

definition blank_page :: page where
  "blank_page =
     \<lparr>wait_for_selector = (\<lambda>sel timeout. Inl (Exception ''Timeout'')),
      query_selector = (\<lambda>sel. Inr None),
      query_selector_all = (\<lambda>sel. Inr []),
      page_inner_text = (\<lambda>sel. Inr [])\<rparr>"

definition two_match_page :: page where
  "two_match_page =
     blank_page
       \<lparr>wait_for_selector := (\<lambda>sel timeout.
            if sel = ''#second'' then Inr (Some (visible_element ''2''))
            else if sel = ''#third'' then Inr (Some (visible_element ''3''))
            else Inl (Exception ''Timeout'')),
        query_selector := (\<lambda>sel.
            if sel = ''#first'' then Inr (Some (hidden_element ''1''))
            else if sel = ''#second'' then Inr (Some (visible_element ''2''))
            else if sel = ''#third'' then Inr (Some (visible_element ''3''))
            else Inr None)\<rparr>"

definition tick_at :: "real \<Rightarrow> page \<Rightarrow> tick_obs" where
  "tick_at t pg = \<lparr>t_loop = t, t_elapsed = t, tick_page = pg\<rparr>"

definition sources_page :: "nat \<Rightarrow> page" where
  "sources_page n =
     blank_page
       \<lparr>query_selector_all := (\<lambda>sel.
            if sel = source_selector then Inr (replicate n (visible_element ''source''))
            else Inr [])\<rparr>"

definition steady_ticks :: "nat \<Rightarrow> nat \<Rightarrow> nat \<Rightarrow> tick_obs list" where
  "steady_ticks n a b = map (\<lambda>k. tick_at (10 * real k) (sources_page n)) [a..<b]"

definition marker_page :: "nat \<Rightarrow> page" where
  "marker_page n =
     blank_page
       \<lparr>query_selector_all := (\<lambda>sel.
            if sel = source_selector then Inr (replicate n (visible_element ''source''))
            else if sel = report_source_selector
            then Inr [visible_element ''Deep Research report'']
            else Inr [])\<rparr>"

definition raising_page :: page where
  "raising_page =
     \<lparr>wait_for_selector = (\<lambda>sel timeout. Inl (Exception ''Target closed'')),
      query_selector = (\<lambda>sel. Inl (Exception ''Target closed'')),
      query_selector_all = (\<lambda>sel. Inl (Exception ''Target closed'')),
      page_inner_text = (\<lambda>sel. Inl (Exception ''Target closed''))\<rparr>"

definition body_page :: "string \<Rightarrow> page" where
  "body_page t = blank_page\<lparr>page_inner_text := (\<lambda>sel. Inr t)\<rparr>"

definition panel_page :: "string \<Rightarrow> page" where
  "panel_page t =
     blank_page
       \<lparr>query_selector := (\<lambda>sel.
            if sel = sources_panel_selector then Inr (Some (visible_element t)) else Inr None),
        page_inner_text := (\<lambda>sel. Inr ''Full text of the notebook page'')\<rparr>"

definition example_run :: "tick_obs list \<Rightarrow> real \<Rightarrow> page \<Rightarrow> run_env" where
  "example_run obs t_end pg =
     \<lparr>setup_end = Submitted,
      start_clock = 0,
      baseline_query = Inr (replicate 5 (visible_element ''source'')),
      ticks = obs,
      end_clock = t_end,
      capture_pages =
        \<lparr>page_at_exit = pg,
         report_link_click = Inl (Exception ''Timeout 30000ms exceeded''),
         page_after_click = pg\<rparr>\<rparr>"

definition timed_out_ticks :: "nat \<Rightarrow> tick_obs list" where
  "timed_out_ticks n =
     [tick_at 0 (sources_page n), tick_at 10 (sources_page n), tick_at 20 (sources_page n),
      tick_at 30 (sources_page n)]"

definition completed_ticks :: "tick_obs list" where
  "completed_ticks =
     [tick_at 0 (sources_page 8), tick_at 10 (sources_page 8), tick_at 20 (sources_page 8),
      tick_at 30 (sources_page 8), tick_at 40 (sources_page 8), tick_at 50 (sources_page 8)]"

definition chat_page_messages :: "element list" where
  "chat_page_messages =
     [hidden_element (replicate 400 (CHR ''d'')),
      visible_element ''Loading'',
      visible_element (replicate 101 (CHR ''a'')),
      visible_element (replicate 150 (CHR ''b''))]"

definition chat_page :: page where
  "chat_page =
     blank_page
       \<lparr>query_selector_all := (\<lambda>sel.
            if sel = ''.to-user-container .message-text-content''
            then Inr chat_page_messages
            else if sel = ''[data-message-author='bot']''
            then Inr [visible_element (replicate 300 (CHR ''c''))]
            else Inr [])\<rparr>"


definition late_change_ticks :: "tick_obs list" where
  "late_change_ticks = steady_ticks 5 1 13 @ steady_ticks 8 13 19"

definition busy_page :: "nat \<Rightarrow> page" where
  \<open>busy_page n =
     sources_page n
       \<lparr>query_selector := (\<lambda>sel.
            if sel = ''[role="progressbar"]'' then Inr (Some (visible_element []))
            else Inr None)\<rparr>\<close>

definition busy_ticks :: "tick_obs list" where
  "busy_ticks =
     [tick_at 0 (busy_page 8), tick_at 10 (busy_page 8), tick_at 20 (busy_page 8),
      tick_at 30 (busy_page 8), tick_at 40 (busy_page 8), tick_at 50 (busy_page 8)]"

section \<open>Properties\<close>

subsection \<open>Locator resolution\<close>

lemma find_element_none:
  "\<forall>s\<in>set sels. \<not> resolves_wait pg t s \<Longrightarrow> find_element pg sels d t = None"
  by (induction sels) (auto simp: resolves_wait_def split: sum.splits option.splits)

lemma find_element_first:
  "\<exists>s\<in>set sels. resolves_wait pg t s \<Longrightarrow>
   \<exists>pre s post el. sels = pre @ s # post \<and> (\<forall>x\<in>set pre. \<not> resolves_wait pg t x) \<and>
      wait_for_selector pg s t = Inr (Some el) \<and> find_element pg sels d t = Some (el, s)"
proof (induction sels)
  case Nil
  then show ?case by simp
next
  case (Cons a sels)
  show ?case
  proof (cases "resolves_wait pg t a")
    case True
    then obtain el where el: "wait_for_selector pg a t = Inr (Some el)"
      by (auto simp: resolves_wait_def split: sum.splits option.splits)
    have "a # sels = [] @ a # sels \<and> (\<forall>x\<in>set []. \<not> resolves_wait pg t x) \<and>
      wait_for_selector pg a t = Inr (Some el) \<and> find_element pg (a # sels) d t = Some (el, a)"
      using el by simp
    then show ?thesis by blast
  next
    case False
    with Cons.prems have "\<exists>s\<in>set sels. resolves_wait pg t s" by auto
    from Cons.IH[OF this] obtain pre s post el where
      h: "sels = pre @ s # post" "\<forall>x\<in>set pre. \<not> resolves_wait pg t x"
         "wait_for_selector pg s t = Inr (Some el)" "find_element pg sels d t = Some (el, s)"
      by blast
    have skip: "find_element pg (a # sels) d t = find_element pg sels d t"
      using False by (auto simp: resolves_wait_def split: sum.splits option.splits)
    have "a # sels = (a # pre) @ s # post \<and> (\<forall>x\<in>set (a # pre). \<not> resolves_wait pg t x) \<and>
      wait_for_selector pg s t = Inr (Some el) \<and> find_element pg (a # sels) d t = Some (el, s)"
      using h False skip by simp
    then show ?thesis by blast
  qed
qed

lemma resolves_quick_iff:
  "resolves_quick pg s \<longleftrightarrow>
     (\<exists>el. query_selector pg s = Inr (Some el) \<and> is_visible el = Inr True)"
proof (cases "query_selector pg s")
  case (Inl e)
  then show ?thesis by (simp add: resolves_quick_def)
next
  case (Inr r)
  show ?thesis
  proof (cases r)
    case None
    with Inr show ?thesis by (simp add: resolves_quick_def)
  next
    case (Some el)
    with Inr show ?thesis by (cases "is_visible el") (simp_all add: resolves_quick_def)
  qed
qed

lemma find_element_quick_none:
  "\<forall>s\<in>set sels. \<not> resolves_quick pg s \<Longrightarrow> find_element_quick pg sels d = None"
  by (induction sels) (auto simp: resolves_quick_def split: sum.splits option.splits)

lemma find_element_quick_first:
  "\<exists>s\<in>set sels. resolves_quick pg s \<Longrightarrow>
   \<exists>pre s post el. sels = pre @ s # post \<and> (\<forall>x\<in>set pre. \<not> resolves_quick pg x) \<and>
      query_selector pg s = Inr (Some el) \<and> is_visible el = Inr True \<and>
      find_element_quick pg sels d = Some (el, s)"
proof (induction sels)
  case Nil
  then show ?case by simp
next
  case (Cons a sels)
  show ?case
  proof (cases "resolves_quick pg a")
    case True
    then obtain el where el: "query_selector pg a = Inr (Some el)" "is_visible el = Inr True"
      unfolding resolves_quick_iff by blast
    have "a # sels = [] @ a # sels \<and> (\<forall>x\<in>set []. \<not> resolves_quick pg x) \<and>
      query_selector pg a = Inr (Some el) \<and> is_visible el = Inr True \<and>
      find_element_quick pg (a # sels) d = Some (el, a)"
      using el by simp
    then show ?thesis by blast
  next
    case False
    with Cons.prems have "\<exists>s\<in>set sels. resolves_quick pg s" by auto
    from Cons.IH[OF this] obtain pre s post el where
      h: "sels = pre @ s # post" "\<forall>x\<in>set pre. \<not> resolves_quick pg x"
         "query_selector pg s = Inr (Some el)" "is_visible el = Inr True"
         "find_element_quick pg sels d = Some (el, s)"
      by blast
    have skip: "find_element_quick pg (a # sels) d = find_element_quick pg sels d"
      using False by (auto simp: resolves_quick_def split: sum.splits option.splits)
    have "a # sels = (a # pre) @ s # post \<and> (\<forall>x\<in>set (a # pre). \<not> resolves_quick pg x) \<and>
      query_selector pg s = Inr (Some el) \<and> is_visible el = Inr True \<and>
      find_element_quick pg (a # sels) d = Some (el, s)"
      using h False skip by simp
    then show ?thesis by blast
  qed
qed

text \<open>
  C6. Both resolvers return the handle and the selector of the earliest selector of the
  list that resolves to a visible element, whatever resolves after it; and when no
  selector of the list resolves they return \<^verbatim>\<open>(None, None)\<close>: every raise is caught.
\<close>

theorem locator_first_match:
  "((\<exists>s\<in>set sels. resolves_wait pg t s) \<longrightarrow>
      (\<exists>pre s post el. sels = pre @ s # post \<and> (\<forall>x\<in>set pre. \<not> resolves_wait pg t x) \<and>
         wait_for_selector pg s t = Inr (Some el) \<and>
         find_element pg sels d t = Some (el, s))) \<and>
   ((\<forall>s\<in>set sels. \<not> resolves_wait pg t s) \<longrightarrow> find_element pg sels d t = None) \<and>
   ((\<exists>s\<in>set sels. resolves_quick pg s) \<longrightarrow>
      (\<exists>pre s post el. sels = pre @ s # post \<and> (\<forall>x\<in>set pre. \<not> resolves_quick pg x) \<and>
         query_selector pg s = Inr (Some el) \<and> is_visible el = Inr True \<and>
         find_element_quick pg sels d = Some (el, s))) \<and>
   ((\<forall>s\<in>set sels. \<not> resolves_quick pg s) \<longrightarrow> find_element_quick pg sels d = None)"
  using find_element_none find_element_first find_element_quick_none find_element_quick_first
  by blast

theorem locator_first_match_witness:
  "resolves_wait two_match_page 10000 ''#second'' \<and>
   resolves_wait two_match_page 10000 ''#third'' \<and>
   \<not> resolves_wait two_match_page 10000 ''#first'' \<and>
   find_element two_match_page [''#first'', ''#second'', ''#third''] ''control'' 10000
     = Some (visible_element ''2'', ''#second'') \<and>
   find_element blank_page [''#first'', ''#second'', ''#third''] ''control'' 10000 = None \<and>
   resolves_quick two_match_page ''#second'' \<and>
   resolves_quick two_match_page ''#third'' \<and>
   \<not> resolves_quick two_match_page ''#first'' \<and>
   find_element_quick two_match_page [''#first'', ''#second'', ''#third''] ''control''
     = Some (visible_element ''2'', ''#second'') \<and>
   find_element_quick blank_page [''#first'', ''#second'', ''#third''] ''control'' = None"
  using locator_first_match [of "[''#first'', ''#second'', ''#third'']" two_match_page 10000 "''control''"]
    locator_first_match [of "[''#first'', ''#second'', ''#third'']" blank_page 10000 "''control''"]
  by (simp add: resolves_wait_def resolves_quick_def two_match_page_def blank_page_def
      visible_element_def hidden_element_def)

subsection \<open>The poll loop on quiet iterations\<close>

lemma sample_sources_raise:
  "sampled_count pg = None \<Longrightarrow> sample_sources pg st = st"
  by (simp add: sampled_count_def sample_sources_def split: sum.splits)

lemma sample_sources_same:
  "sampled_count pg = Some (last_sources_count st) \<Longrightarrow>
   sample_sources pg st = st\<lparr>stable_count := stable_count st + 1\<rparr>"
  by (auto simp: sampled_count_def sample_sources_def Let_def split: sum.splits)

lemma sample_sources_changed:
  "sampled_count pg = Some c \<Longrightarrow> c \<noteq> last_sources_count st \<Longrightarrow>
   sample_sources pg st = st\<lparr>last_sources_count := c, stable_count := 0\<rparr>"
  by (auto simp: sampled_count_def sample_sources_def Let_def split: sum.splits)

lemma poll_tick_alt:
  "poll_tick i s st ob =
     (let st2 = sample_sources (tick_page ob) (st\<lparr>check_num := check_num st + 1\<rparr>);
          marker = report_source_visible (tick_page ob);
          is_loading = (if marker then False else busy (tick_page ob));
          st3 = (if marker then st2\<lparr>stable_count := 10\<rparr> else st2)
      in if 5 \<le> stable_count st3 \<and> \<not> is_loading \<and> 0 < last_sources_count st3 - i
         then (st3, Some Primary)
         else if 12 \<le> stable_count st3 \<and> \<not> is_loading \<and> 60 < elapsed_at s ob
         then (st3, Some Fallback)
         else (st3, None))"
  by (simp add: poll_tick_def busy_def elapsed_at_def Let_def)

lemma poll_tick_quiet:
  assumes "quiet_tick d (last_sources_count st) ob"
  shows "poll_tick i s st ob =
     (st\<lparr>check_num := check_num st + 1, stable_count := stable_count st + 1\<rparr>,
      if 5 \<le> stable_count st + 1 \<and> 0 < last_sources_count st - i then Some Primary
      else if 12 \<le> stable_count st + 1 \<and> 60 < elapsed_at s ob then Some Fallback
      else None)"
proof -
  from assms have c: "sampled_count (tick_page ob) = Some (last_sources_count st)"
    and b: "\<not> busy (tick_page ob)" and m: "\<not> report_source_visible (tick_page ob)"
    by (simp_all add: quiet_tick_def)
  have "sample_sources (tick_page ob) (st\<lparr>check_num := check_num st + 1\<rparr>) =
      st\<lparr>check_num := check_num st + 1, stable_count := stable_count st + 1\<rparr>"
    using sample_sources_same[of "tick_page ob" "st\<lparr>check_num := check_num st + 1\<rparr>"] c
    by simp
  then show ?thesis using b m by (simp add: poll_tick_alt Let_def)
qed

lemma poll_tick_change:
  assumes "sampled_count (tick_page ob) = Some c" "c \<noteq> last_sources_count st"
    "\<not> report_source_visible (tick_page ob)"
  shows "poll_tick i s st ob =
     (st\<lparr>check_num := check_num st + 1, last_sources_count := c, stable_count := 0\<rparr>, None)"
proof -
  have "sample_sources (tick_page ob) (st\<lparr>check_num := check_num st + 1\<rparr>) =
      st\<lparr>check_num := check_num st + 1, last_sources_count := c, stable_count := 0\<rparr>"
    using sample_sources_changed[of "tick_page ob" c "st\<lparr>check_num := check_num st + 1\<rparr>"] assms
    by simp
  then show ?thesis using assms(3) by (simp add: poll_tick_alt Let_def)
qed

lemma quiet_run_primary:
  assumes "\<forall>ob\<in>set quiet. quiet_tick d (last_sources_count st) ob"
    and "i < last_sources_count st" and "0 \<le> stable_count st" and "stable_count st < 5"
  shows "poll_loop i s d st quiet =
     (if nat (5 - stable_count st) \<le> length quiet
      then Some (st\<lparr>check_num := check_num st + nat (5 - stable_count st), stable_count := 5\<rparr>,
                 Complete Primary)
      else None)"
  using assms
proof (induction quiet arbitrary: st)
  case Nil
  then show ?case by simp
next
  case (Cons ob quiet)
  from Cons.prems(1) have q: "quiet_tick d (last_sources_count st) ob" by simp
  then have t: "t_loop ob < d" by (simp add: quiet_tick_def)
  note pt = poll_tick_quiet[OF q, of i s]
  show ?case
  proof (cases "stable_count st = 4")
    case True
    then show ?thesis using t pt Cons.prems(2) by simp
  next
    case False
    let ?st' = "st\<lparr>check_num := check_num st + 1, stable_count := stable_count st + 1\<rparr>"
    from False Cons.prems have lt: "stable_count st + 1 < 5" by simp
    have step: "poll_loop i s d st (ob # quiet) = poll_loop i s d ?st' quiet"
      using t pt lt by simp
    have ih: "poll_loop i s d ?st' quiet =
       (if nat (5 - stable_count ?st') \<le> length quiet
        then Some (?st'\<lparr>check_num := check_num ?st' + nat (5 - stable_count ?st'), stable_count := 5\<rparr>,
                   Complete Primary)
        else None)"
      by (rule Cons.IH) (use Cons.prems lt in simp_all)
    have n: "nat (5 - stable_count st) = Suc (nat (5 - (stable_count st + 1)))"
      using lt Cons.prems(3) by simp
    show ?thesis unfolding step ih n by simp
  qed
qed

lemma primary_after_change:
  assumes "t_loop chg < deadline"
    and "sampled_count (tick_page chg) = Some c"
    and "c \<noteq> last_sources_count st"
    and "initial < c"
    and "\<not> report_source_visible (tick_page chg)"
    and "\<forall>ob\<in>set quiet. quiet_tick deadline c ob"
  shows "poll_loop initial start deadline st (chg # quiet) =
     (if 5 \<le> length quiet
      then Some (\<lparr>last_sources_count = c, stable_count = 5, check_num = check_num st + 6\<rparr>,
                 Complete Primary)
      else None)"
proof -
  let ?st' = "st\<lparr>check_num := check_num st + 1, last_sources_count := c, stable_count := 0\<rparr>"
  have step: "poll_loop initial start deadline st (chg # quiet) =
      poll_loop initial start deadline ?st' quiet"
    using assms(1) poll_tick_change[OF assms(2,3,5), of initial start] by simp
  have "poll_loop initial start deadline ?st' quiet =
     (if nat (5 - stable_count ?st') \<le> length quiet
      then Some (?st'\<lparr>check_num := check_num ?st' + nat (5 - stable_count ?st'), stable_count := 5\<rparr>,
                 Complete Primary)
      else None)"
    by (rule quiet_run_primary) (use assms in simp_all)
  then show ?thesis unfolding step by simp
qed


lemma quiet_run_fallback_some:
  assumes "\<forall>ob\<in>set obs. quiet_tick d (last_sources_count st) ob"
    and "last_sources_count st \<le> i" and "stable_count st = int j"
    and "k < length obs" and "12 \<le> j + k + 1" and "60 < elapsed_at s (obs ! k)"
    and "\<forall>k'<k. \<not> (12 \<le> j + k' + 1 \<and> 60 < elapsed_at s (obs ! k'))"
  shows "poll_loop i s d st obs =
     Some (st\<lparr>check_num := check_num st + k + 1, stable_count := int (j + k + 1)\<rparr>,
           Complete Fallback)"
  using assms
proof (induction obs arbitrary: st j k)
  case Nil
  then show ?case by simp
next
  case (Cons ob obs)
  from Cons.prems(1) have q: "quiet_tick d (last_sources_count st) ob" by simp
  then have t: "t_loop ob < d" by (simp add: quiet_tick_def)
  note pt = poll_tick_quiet[OF q, of i s]
  show ?case
  proof (cases k)
    case 0
    then have "12 \<le> stable_count st + 1" "60 < elapsed_at s ob"
      using Cons.prems(3,5,6) by simp_all
    then show ?thesis using t pt Cons.prems(2,3) 0 by simp
  next
    case (Suc k')
    let ?st' = "st\<lparr>check_num := check_num st + 1, stable_count := stable_count st + 1\<rparr>"
    from Cons.prems(7) Suc have "\<not> (12 \<le> j + 0 + 1 \<and> 60 < elapsed_at s ((ob # obs) ! 0))"
      by blast
    then have nr: "\<not> (12 \<le> stable_count st + 1 \<and> 60 < elapsed_at s ob)"
      using Cons.prems(3) by simp
    have "poll_tick i s st ob = (?st', None)"
      unfolding pt using nr Cons.prems(2) by auto
    then have step: "poll_loop i s d st (ob # obs) = poll_loop i s d ?st' obs"
      using t by simp
    have rest: "\<forall>k''<k'. \<not> (12 \<le> Suc j + k'' + 1 \<and> 60 < elapsed_at s (obs ! k''))"
    proof (intro allI impI)
      fix k'' assume "k'' < k'"
      then have "Suc k'' < k" using Suc by simp
      from Cons.prems(7)[rule_format, OF this] show
        "\<not> (12 \<le> Suc j + k'' + 1 \<and> 60 < elapsed_at s (obs ! k''))" by simp
    qed
    have "poll_loop i s d ?st' obs =
       Some (?st'\<lparr>check_num := check_num ?st' + k' + 1, stable_count := int (Suc j + k' + 1)\<rparr>,
             Complete Fallback)"
      by (rule Cons.IH[where j = "Suc j" and k = k']) (use Cons.prems Suc rest in simp_all)
    then show ?thesis unfolding step using Suc by simp
  qed
qed


lemma selectors_distinct:
  "spinner_selector \<noteq> source_selector" "report_source_selector \<noteq> source_selector"
  by (simp_all add: spinner_selector_def source_selector_def report_source_selector_def)

lemma sources_page_not_loading: "loading_scan (sources_page n) sels = False"
  by (induction sels) (simp_all add: sources_page_def blank_page_def)

lemma sources_page_queries:
  "query_selector_all (sources_page n) source_selector =
     Inr (replicate n (visible_element ''source''))"
  "query_selector_all (sources_page n) spinner_selector = Inr []"
  "query_selector_all (sources_page n) report_source_selector = Inr []"
  by (simp_all add: sources_page_def selectors_distinct)

lemma sources_page_signals:
  "sampled_count (sources_page n) = Some (int n)"
  "\<not> busy (sources_page n)"
  "\<not> report_source_visible (sources_page n)"
  by (simp_all add: sampled_count_def busy_def report_source_visible_def spinner_scan_def
      sources_page_not_loading sources_page_queries)

lemma quiet_tick_sources:
  "t < d \<Longrightarrow> quiet_tick d (int n) (tick_at t (sources_page n))"
  by (simp add: quiet_tick_def tick_at_def sources_page_signals)

lemma steady_ticks_quiet:
  "b \<le> 60 \<Longrightarrow> \<forall>ob\<in>set (steady_ticks n a b). quiet_tick 600 (int n) ob"
  by (auto simp: steady_ticks_def intro!: quiet_tick_sources)

lemma steady_ticks_length: "length (steady_ticks n a b) = b - a"
  by (simp add: steady_ticks_def)

lemma steady_ticks_nth: "k < b - a \<Longrightarrow> steady_ticks n a b ! k = tick_at (10 * real (a + k)) (sources_page n)"
  by (simp add: steady_ticks_def)

lemma poll_tick_sources:
  "poll_tick i 0 st (tick_at t (sources_page n)) =
     (if int n \<noteq> last_sources_count st
      then (st\<lparr>check_num := check_num st + 1, last_sources_count := int n, stable_count := 0\<rparr>,
            None)
      else (st\<lparr>check_num := check_num st + 1, stable_count := stable_count st + 1\<rparr>,
            if 5 \<le> stable_count st + 1 \<and> 0 < last_sources_count st - i then Some Primary
            else if 12 \<le> stable_count st + 1 \<and> 60 < py_int t then Some Fallback
            else None))"
proof (cases "int n = last_sources_count st")
  case True
  have "quiet_tick (t + 1) (last_sources_count st) (tick_at t (sources_page n))"
    using quiet_tick_sources[of t "t + 1" n] True by simp
  from poll_tick_quiet[OF this, of i 0] True show ?thesis
    by (simp add: elapsed_at_def tick_at_def)
next
  case False
  have "poll_tick i 0 st (tick_at t (sources_page n)) =
     (st\<lparr>check_num := check_num st + 1, last_sources_count := int n, stable_count := 0\<rparr>, None)"
    by (rule poll_tick_change) (use False in \<open>simp_all add: tick_at_def sources_page_signals\<close>)
  with False show ?thesis by simp
qed

lemma t_loop_tick_at: "t_loop (tick_at t pg) = t"
  by (simp add: tick_at_def)

lemma py_int_gt_60: "60 < py_int x \<longleftrightarrow> 61 \<le> x"
proof (cases "0 \<le> x")
  case True
  have "60 < \<lfloor>x\<rfloor> \<longleftrightarrow> 61 \<le> \<lfloor>x\<rfloor>" by linarith
  also have "\<dots> \<longleftrightarrow> 61 \<le> x" using le_floor_iff[of 61 x] by simp
  finally show ?thesis using True by (simp add: py_int_def)
next
  case False
  then have "\<lceil>x\<rceil> \<le> 0" by (simp add: ceiling_le_iff)
  with False show ?thesis by (simp add: py_int_def)
qed

lemma elapsed_gt_60: "60 < elapsed_at s ob \<longleftrightarrow> 61 \<le> t_elapsed ob - s"
  by (simp add: elapsed_at_def py_int_gt_60)

lemma poll_loop_append_Some:
  "poll_loop i s d st obs = Some x \<Longrightarrow> poll_loop i s d st (obs @ rest) = Some x"
proof (induction obs arbitrary: st)
  case Nil
  then show ?case by simp
next
  case (Cons ob obs)
  show ?case
  proof (cases "t_loop ob < d")
    case False
    with Cons.prems show ?thesis by simp
  next
    case True
    obtain st1 r1 where pt: "poll_tick i s st ob = (st1, r1)" by (cases "poll_tick i s st ob")
    show ?thesis
    proof (cases r1)
      case (Some r)
      with Cons.prems True pt show ?thesis by simp
    next
      case None
      with Cons.prems True pt have "poll_loop i s d st1 obs = Some x" by simp
      from Cons.IH[OF this] show ?thesis using True pt None by simp
    qed
  qed
qed

lemma quiet_run_through:
  assumes "\<forall>ob\<in>set obs. quiet_tick d (last_sources_count st) ob"
    and "last_sources_count st \<le> i" and "stable_count st = int j"
    and "\<forall>k<length obs. \<not> (12 \<le> j + k + 1 \<and> 60 < elapsed_at s (obs ! k))"
  shows "poll_loop i s d st (obs @ rest) =
     poll_loop i s d
       (st\<lparr>check_num := check_num st + length obs, stable_count := int (j + length obs)\<rparr>) rest"
  using assms
proof (induction obs arbitrary: st j)
  case Nil
  then have "st\<lparr>stable_count := int j\<rparr> = st" by simp
  then show ?case by simp
next
  case (Cons ob obs)
  from Cons.prems(1) have q: "quiet_tick d (last_sources_count st) ob" by simp
  then have t: "t_loop ob < d" by (simp add: quiet_tick_def)
  let ?st' = "st\<lparr>check_num := check_num st + 1, stable_count := stable_count st + 1\<rparr>"
  from Cons.prems(4) have "\<not> (12 \<le> j + 0 + 1 \<and> 60 < elapsed_at s ((ob # obs) ! 0))"
    by blast
  then have nr: "\<not> (12 \<le> stable_count st + 1 \<and> 60 < elapsed_at s ob)"
    using Cons.prems(3) by simp
  have "poll_tick i s st ob = (?st', None)"
    unfolding poll_tick_quiet[OF q, of i s] using nr Cons.prems(2) by auto
  then have step: "poll_loop i s d st ((ob # obs) @ rest) = poll_loop i s d ?st' (obs @ rest)"
    using t by simp
  have more: "\<forall>k<length obs. \<not> (12 \<le> Suc j + k + 1 \<and> 60 < elapsed_at s (obs ! k))"
  proof (intro allI impI)
    fix k assume "k < length obs"
    then have "Suc k < length (ob # obs)" by simp
    from Cons.prems(4)[rule_format, OF this] show
      "\<not> (12 \<le> Suc j + k + 1 \<and> 60 < elapsed_at s (obs ! k))" by simp
  qed
  have "poll_loop i s d ?st' (obs @ rest) =
     poll_loop i s d
       (?st'\<lparr>check_num := check_num ?st' + length obs,
              stable_count := int (Suc j + length obs)\<rparr>) rest"
    by (rule Cons.IH[where j = "Suc j"]) (use Cons.prems more in simp_all)
  then show ?case unfolding step by simp
qed

text \<open>
  C4, as the code has it. From the start of the loop the iterations sample the baseline
  count, then one iteration samples a count \<open>c\<close> above it, and the later ones sample
  \<open>c\<close>; none is loading or shows a report source, and all are inside the deadline. If no
  iteration before the change has a number of at least 12 with 61 seconds or more on the
  clock, the loop is left by the primary rule at the fifth iteration after the change,
  with the stability counter at 5, and at no earlier iteration. Otherwise the loop is
  left by the fallback rule at the first such iteration, before the change is sampled.
\<close>

theorem primary_rule_fifth_tick_unless_fallback_first:
  assumes "\<forall>ob\<in>set pre. quiet_tick deadline initial ob"
    and "t_loop chg < deadline"
    and "sampled_count (tick_page chg) = Some c"
    and "initial < c"
    and "\<not> report_source_visible (tick_page chg)"
    and "\<forall>ob\<in>set quiet. quiet_tick deadline c ob"
  shows "((\<forall>k<length pre. \<not> (12 \<le> k + 1 \<and> 61 \<le> t_elapsed (pre ! k) - start)) \<longrightarrow>
            poll_loop initial start deadline
              \<lparr>last_sources_count = initial, stable_count = 0, check_num = 0\<rparr>
              (pre @ chg # quiet) =
            (if 5 \<le> length quiet
             then Some (\<lparr>last_sources_count = c, stable_count = 5,
                         check_num = length pre + 6\<rparr>, Complete Primary)
             else None)) \<and>
         (\<forall>k<length pre.
            12 \<le> k + 1 \<and> 61 \<le> t_elapsed (pre ! k) - start \<and>
            (\<forall>j<k. \<not> (12 \<le> j + 1 \<and> 61 \<le> t_elapsed (pre ! j) - start)) \<longrightarrow>
            poll_loop initial start deadline
              \<lparr>last_sources_count = initial, stable_count = 0, check_num = 0\<rparr>
              (pre @ chg # quiet) =
            Some (\<lparr>last_sources_count = initial, stable_count = int k + 1, check_num = k + 1\<rparr>,
                  Complete Fallback))"
proof -
  let ?st0 = "\<lparr>last_sources_count = initial, stable_count = 0, check_num = 0\<rparr>"
  have q: "\<forall>ob\<in>set pre. quiet_tick deadline (last_sources_count ?st0) ob"
    using assms(1) by simp
  have a: "(\<forall>k<length pre. \<not> (12 \<le> k + 1 \<and> 61 \<le> t_elapsed (pre ! k) - start)) \<longrightarrow>
            poll_loop initial start deadline ?st0 (pre @ chg # quiet) =
            (if 5 \<le> length quiet
             then Some (\<lparr>last_sources_count = c, stable_count = 5,
                         check_num = length pre + 6\<rparr>, Complete Primary)
             else None)"
  proof
    assume "\<forall>k<length pre. \<not> (12 \<le> k + 1 \<and> 61 \<le> t_elapsed (pre ! k) - start)"
    then have n: "\<forall>k<length pre. \<not> (12 \<le> 0 + k + 1 \<and> 60 < elapsed_at start (pre ! k))"
      by (simp add: elapsed_gt_60)
    let ?st1 = "?st0\<lparr>check_num := check_num ?st0 + length pre,
                      stable_count := int (0 + length pre)\<rparr>"
    have through: "poll_loop initial start deadline ?st0 (pre @ chg # quiet) =
        poll_loop initial start deadline ?st1 (chg # quiet)"
      by (rule quiet_run_through[OF q _ _ n]) simp_all
    have "poll_loop initial start deadline ?st1 (chg # quiet) =
       (if 5 \<le> length quiet
        then Some (\<lparr>last_sources_count = c, stable_count = 5, check_num = check_num ?st1 + 6\<rparr>,
                   Complete Primary)
        else None)"
      by (rule primary_after_change) (use assms in simp_all)
    then show "poll_loop initial start deadline ?st0 (pre @ chg # quiet) =
            (if 5 \<le> length quiet
             then Some (\<lparr>last_sources_count = c, stable_count = 5,
                         check_num = length pre + 6\<rparr>, Complete Primary)
             else None)"
      unfolding through by simp
  qed
  have b: "\<forall>k<length pre.
            12 \<le> k + 1 \<and> 61 \<le> t_elapsed (pre ! k) - start \<and>
            (\<forall>j<k. \<not> (12 \<le> j + 1 \<and> 61 \<le> t_elapsed (pre ! j) - start)) \<longrightarrow>
            poll_loop initial start deadline ?st0 (pre @ chg # quiet) =
            Some (\<lparr>last_sources_count = initial, stable_count = int k + 1, check_num = k + 1\<rparr>,
                  Complete Fallback)"
  proof (intro allI impI)
    fix k assume k: "k < length pre"
      and h: "12 \<le> k + 1 \<and> 61 \<le> t_elapsed (pre ! k) - start \<and>
            (\<forall>j<k. \<not> (12 \<le> j + 1 \<and> 61 \<le> t_elapsed (pre ! j) - start))"
    have "poll_loop initial start deadline ?st0 pre =
       Some (?st0\<lparr>check_num := check_num ?st0 + k + 1, stable_count := int (0 + k + 1)\<rparr>,
             Complete Fallback)"
      by (rule quiet_run_fallback_some[OF q _ _ k]) (use h in \<open>simp_all add: elapsed_gt_60\<close>)
    from poll_loop_append_Some[OF this, of "chg # quiet"]
    show "poll_loop initial start deadline ?st0 (pre @ chg # quiet) =
            Some (\<lparr>last_sources_count = initial, stable_count = int k + 1, check_num = k + 1\<rparr>,
                  Complete Fallback)" by simp
  qed
  show ?thesis using a b by (rule conjI)
qed






lemma baseline_twelve_ticks_fallback:
  "poll_loop 5 0 600 \<lparr>last_sources_count = 5, stable_count = 0, check_num = 0\<rparr>
     (steady_ticks 5 1 13 @ rest) =
   Some (\<lparr>last_sources_count = 5, stable_count = 12, check_num = 12\<rparr>, Complete Fallback)"
proof -
  let ?st0 = "\<lparr>last_sources_count = 5, stable_count = 0, check_num = 0\<rparr>"
  have q: "\<forall>ob\<in>set (steady_ticks 5 1 13). quiet_tick 600 (last_sources_count ?st0) ob"
    using steady_ticks_quiet[of 13 5 1] by simp
  have "poll_loop 5 0 600 ?st0 (steady_ticks 5 1 13) =
      Some (?st0\<lparr>check_num := check_num ?st0 + 11 + 1, stable_count := int (0 + 11 + 1)\<rparr>,
            Complete Fallback)"
    by (rule quiet_run_fallback_some[OF q])
       (simp_all add: steady_ticks_length steady_ticks_nth elapsed_at_def tick_at_def py_int_def)
  from poll_loop_append_Some[OF this, of rest] show ?thesis by simp
qed

text \<open>
  C4 as stated fails: twelve iterations at the baseline count of 5, ten seconds apart,
  then six iterations at 8. The loop is left by the fallback rule at iteration 12, before
  the change.
\<close>

theorem late_change_completes_by_fallback:
  "map (\<lambda>ob. sampled_count (tick_page ob)) late_change_ticks =
     replicate 12 (Some 5) @ replicate 6 (Some 8) \<and>
   poll_loop 5 0 600 \<lparr>last_sources_count = 5, stable_count = 0, check_num = 0\<rparr>
     late_change_ticks =
     Some (\<lparr>last_sources_count = 5, stable_count = 12, check_num = 12\<rparr>, Complete Fallback)"
proof -
  have "map (\<lambda>ob. sampled_count (tick_page ob)) (steady_ticks n a b) =
      replicate (b - a) (Some (int n))" for n a b
    by (simp add: steady_ticks_def tick_at_def sources_page_signals map_replicate_const comp_def)
  then show ?thesis
    unfolding late_change_ticks_def baseline_twelve_ticks_fallback by simp
qed

theorem primary_rule_fifth_tick_unless_fallback_first_witness:
  "poll_loop 5 0 600 \<lparr>last_sources_count = 5, stable_count = 0, check_num = 0\<rparr>
     (steady_ticks 5 1 4 @ tick_at 40 (sources_page 8) # steady_ticks 8 5 10) =
     Some (\<lparr>last_sources_count = 8, stable_count = 5, check_num = 9\<rparr>, Complete Primary) \<and>
   poll_loop 5 0 600 \<lparr>last_sources_count = 5, stable_count = 0, check_num = 0\<rparr>
     (steady_ticks 5 1 4 @ tick_at 40 (sources_page 8) # steady_ticks 8 5 9) = None \<and>
   poll_loop 5 0 600 \<lparr>last_sources_count = 5, stable_count = 0, check_num = 0\<rparr>
     (steady_ticks 5 1 13 @ tick_at 130 (sources_page 8) # steady_ticks 8 14 19) =
     Some (\<lparr>last_sources_count = 5, stable_count = 12, check_num = 12\<rparr>, Complete Fallback)"
proof -
  have q: "\<forall>ob\<in>set (steady_ticks n a b). quiet_tick 600 (int n) ob" if "b \<le> 60" for n a b
    using steady_ticks_quiet[OF that] by simp
  have chg: "t_loop (tick_at t (sources_page 8)) < 600"
    "sampled_count (tick_page (tick_at t (sources_page 8))) = Some 8"
    "(5::int) < 8"
    "\<not> report_source_visible (tick_page (tick_at t (sources_page 8)))" if "t < 600" for t
    using sources_page_signals[of 8] that by (simp_all add: tick_at_def)
  note inst = primary_rule_fifth_tick_unless_fallback_first[where initial = 5 and deadline = 600
      and c = 8 and start = 0]
  have a: "poll_loop 5 0 600 \<lparr>last_sources_count = 5, stable_count = 0, check_num = 0\<rparr>
     (steady_ticks 5 1 4 @ tick_at 40 (sources_page 8) # steady_ticks 8 5 10) =
     Some (\<lparr>last_sources_count = 8, stable_count = 5, check_num = 9\<rparr>, Complete Primary)"
    using inst[where pre = "steady_ticks 5 1 4" and chg = "tick_at 40 (sources_page 8)"
        and quiet = "steady_ticks 8 5 10", THEN conjunct1] q[of 4 5 1] q[of 10 8 5] chg[of 40]
    by (simp add: steady_ticks_length)
  have b: "poll_loop 5 0 600 \<lparr>last_sources_count = 5, stable_count = 0, check_num = 0\<rparr>
     (steady_ticks 5 1 4 @ tick_at 40 (sources_page 8) # steady_ticks 8 5 9) = None"
    using inst[where pre = "steady_ticks 5 1 4" and chg = "tick_at 40 (sources_page 8)"
        and quiet = "steady_ticks 8 5 9", THEN conjunct1] q[of 4 5 1] q[of 9 8 5] chg[of 40]
    by (simp add: steady_ticks_length)
  have "11 < length (steady_ticks 5 1 13) \<and> 12 \<le> (11::nat) + 1 \<and>
      61 \<le> t_elapsed (steady_ticks 5 1 13 ! 11) - 0 \<and>
      (\<forall>j<11. \<not> (12 \<le> j + 1 \<and> 61 \<le> t_elapsed (steady_ticks 5 1 13 ! j) - 0))"
    by (simp add: steady_ticks_length steady_ticks_nth tick_at_def)
  with inst[where pre = "steady_ticks 5 1 13" and chg = "tick_at 130 (sources_page 8)"
        and quiet = "steady_ticks 8 14 19", THEN conjunct2, rule_format, of 11]
    q[of 13 5 1] q[of 19 8 14] chg[of 130]
  have c: "poll_loop 5 0 600 \<lparr>last_sources_count = 5, stable_count = 0, check_num = 0\<rparr>
     (steady_ticks 5 1 13 @ tick_at 130 (sources_page 8) # steady_ticks 8 14 19) =
     Some (\<lparr>last_sources_count = 5, stable_count = 12, check_num = 12\<rparr>, Complete Fallback)"
    by simp
  show ?thesis using a b c by simp
qed

subsection \<open>The report source and sampling errors\<close>

lemma poll_tick_marker:
  assumes "report_source_visible (tick_page ob)"
  shows "poll_tick i s st ob =
     (let st2 = sample_sources (tick_page ob) (st\<lparr>check_num := check_num st + 1\<rparr>)
      in (st2\<lparr>stable_count := 10\<rparr>,
          if 0 < last_sources_count st2 - i then Some Primary else None))"
  using assms by (simp add: poll_tick_alt Let_def)

lemma marker_page_signals:
  "sampled_count (marker_page n) = Some (int n)"
  "report_source_visible (marker_page n)"
  by (simp_all add: sampled_count_def report_source_visible_def marker_page_def
      visible_element_def selectors_distinct)

text \<open>
  C1. The claim asks that a visible report source completes the loop in the same
  iteration even with no new source since the baseline. Evaluated on that input (baseline
  5, count still 5, report source visible, not loading, 10 seconds elapsed): the iteration
  sets the stability counter to 10 and takes neither \<^verbatim>\<open>break\<close>; with the report source
  visible at every iteration the loop runs to the deadline.
\<close>

theorem marker_with_no_new_sources_keeps_polling:
  "report_source_visible (marker_page 5) \<and>
   poll_tick 5 0 \<lparr>last_sources_count = 5, stable_count = 0, check_num = 0\<rparr>
     (tick_at 10 (marker_page 5)) =
     (\<lparr>last_sources_count = 5, stable_count = 10, check_num = 1\<rparr>, None) \<and>
   poll_loop 5 0 600 \<lparr>last_sources_count = 5, stable_count = 0, check_num = 0\<rparr>
     [tick_at 10 (marker_page 5)] = None \<and>
   poll_loop 5 0 600 \<lparr>last_sources_count = 5, stable_count = 0, check_num = 0\<rparr>
     [tick_at 10 (marker_page 5), tick_at 20 (marker_page 5), tick_at 600 (marker_page 5)] =
     Some (\<lparr>last_sources_count = 5, stable_count = 10, check_num = 2\<rparr>, Timed_out)"
proof -
  have m: "report_source_visible (tick_page (tick_at t (marker_page 5)))" for t
    by (simp add: tick_at_def marker_page_signals)
  have s: "sample_sources (tick_page (tick_at t (marker_page 5))) st =
      st\<lparr>stable_count := stable_count st + 1\<rparr>" if "last_sources_count st = 5" for t st
    using sample_sources_same[of "marker_page 5" st] that marker_page_signals(1)[of 5]
    by (simp add: tick_at_def)
  have t: "poll_tick 5 0 st (tick_at t (marker_page 5)) =
      (st\<lparr>check_num := check_num st + 1, stable_count := 10\<rparr>, None)"
    if "last_sources_count st = 5" for t st
    using that by (simp add: poll_tick_marker[OF m] s Let_def)
  have l: "t_loop (tick_at t pg) = t" for t pg by (simp add: tick_at_def)
  show ?thesis using marker_page_signals(2)[of 5] by (simp add: t l)
qed

lemma poll_tick_break:
  assumes "poll_tick i s st ob = (st', Some r)"
  shows "(if report_source_visible (tick_page ob) then True else \<not> busy (tick_page ob)) \<and>
         (case r of
            Primary \<Rightarrow> 5 \<le> stable_count st' \<and> 0 < last_sources_count st' - i
          | Fallback \<Rightarrow> 12 \<le> stable_count st' \<and> 60 < elapsed_at s ob)"
  using assms by (auto simp: poll_tick_alt Let_def split: if_splits)

lemma poll_loop_exit_reason:
  assumes "poll_loop i s d st obs = Some (st', ex)"
  shows "case ex of
           Timed_out \<Rightarrow> \<exists>k<length obs. d \<le> t_loop (obs ! k)
         | Complete r \<Rightarrow>
             \<exists>k<length obs. t_loop (obs ! k) < d \<and>
               (if report_source_visible (tick_page (obs ! k)) then True
                else \<not> busy (tick_page (obs ! k))) \<and>
               (case r of
                  Primary \<Rightarrow> 5 \<le> stable_count st' \<and> 0 < last_sources_count st' - i
                | Fallback \<Rightarrow> 12 \<le> stable_count st' \<and> 60 < elapsed_at s (obs ! k))"
  using assms
proof (induction obs arbitrary: st)
  case Nil
  then show ?case by simp
next
  case (Cons ob obs)
  show ?case
  proof (cases "t_loop ob < d")
    case False
    with Cons.prems have e: "ex = Timed_out" by simp
    have "\<exists>k<length (ob # obs). d \<le> t_loop ((ob # obs) ! k)"
      using False by (intro exI[of _ 0]) simp
    then show ?thesis unfolding e by (simp only: loop_exit.case)
  next
    case True
    obtain st1 r1 where pt: "poll_tick i s st ob = (st1, r1)" by (cases "poll_tick i s st ob")
    show ?thesis
    proof (cases r1)
      case (Some r)
      with Cons.prems True pt have e: "ex = Complete r" "st' = st1" by simp_all
      from poll_tick_break[OF pt[unfolded Some]] True
      have "\<exists>k<length (ob # obs). t_loop ((ob # obs) ! k) < d \<and>
               (if report_source_visible (tick_page ((ob # obs) ! k)) then True
                else \<not> busy (tick_page ((ob # obs) ! k))) \<and>
               (case r of
                  Primary \<Rightarrow> 5 \<le> stable_count st1 \<and> 0 < last_sources_count st1 - i
                | Fallback \<Rightarrow> 12 \<le> stable_count st1 \<and> 60 < elapsed_at s ((ob # obs) ! k))"
        by (intro exI[of _ 0]) (cases r, simp_all)
      then show ?thesis unfolding e by (simp only: loop_exit.case)
    next
      case None
      with Cons.prems True pt have rest: "poll_loop i s d st1 obs = Some (st', ex)" by simp
      note ih = Cons.IH[OF rest]
      show ?thesis
      proof (cases ex)
        case Timed_out
        from ih[unfolded Timed_out] obtain k where "k < length obs" "d \<le> t_loop (obs ! k)"
          by (auto simp only: loop_exit.case)
        then have "\<exists>k<length (ob # obs). d \<le> t_loop ((ob # obs) ! k)"
          by (intro exI[of _ "Suc k"]) simp
        then show ?thesis unfolding Timed_out by (simp only: loop_exit.case)
      next
        case (Complete r)
        from ih[unfolded Complete] obtain k where k: "k < length obs" "t_loop (obs ! k) < d"
               "if report_source_visible (tick_page (obs ! k)) then True
                else \<not> busy (tick_page (obs ! k))"
               "case r of
                  Primary \<Rightarrow> 5 \<le> stable_count st' \<and> 0 < last_sources_count st' - i
                | Fallback \<Rightarrow> 12 \<le> stable_count st' \<and> 60 < elapsed_at s (obs ! k)"
          unfolding loop_exit.case by blast
        have "\<exists>k<length (ob # obs). t_loop ((ob # obs) ! k) < d \<and>
               (if report_source_visible (tick_page ((ob # obs) ! k)) then True
                else \<not> busy (tick_page ((ob # obs) ! k))) \<and>
               (case r of
                  Primary \<Rightarrow> 5 \<le> stable_count st' \<and> 0 < last_sources_count st' - i
                | Fallback \<Rightarrow> 12 \<le> stable_count st' \<and> 60 < elapsed_at s ((ob # obs) ! k))"
          using k by (intro exI[of _ "Suc k"]) (simp only: nth_Cons_Suc length_Cons Suc_less_eq simp_thms)
        then show ?thesis unfolding Complete by (simp only: loop_exit.case)
      qed
    qed
  qed
qed

lemma poll_loop_sampling_raised:
  assumes "sampled_count (tick_page ob) = None" and "t_loop ob < d"
    and "\<not> report_source_visible (tick_page ob)"
  shows "poll_loop i s d st (ob # obs) =
     (if 5 \<le> stable_count st \<and> \<not> busy (tick_page ob) \<and> 0 < last_sources_count st - i
      then Some (st\<lparr>check_num := check_num st + 1\<rparr>, Complete Primary)
      else if 12 \<le> stable_count st \<and> \<not> busy (tick_page ob) \<and> 60 < elapsed_at s ob
      then Some (st\<lparr>check_num := check_num st + 1\<rparr>, Complete Fallback)
      else poll_loop i s d (st\<lparr>check_num := check_num st + 1\<rparr>) obs)"
  using assms by (simp add: poll_tick_alt sample_sources_raise Let_def)

lemma loading_scan_all_raise:
  "\<forall>sel\<in>set sels. isl (query_selector pg sel) \<Longrightarrow> loading_scan pg sels = False"
proof (induction sels)
  case Nil
  then show ?case by simp
next
  case (Cons sel sels)
  then have "isl (query_selector pg sel)" by simp
  then obtain e where "query_selector pg sel = Inl e" by (cases "query_selector pg sel") auto
  with Cons show ?case by simp
qed

lemma loading_scan_skip:
  assumes "isl (query_selector pg sel)"
  shows "loading_scan pg (pre @ sel # post) = loading_scan pg (pre @ post)"
proof -
  from assms obtain e where e: "query_selector pg sel = Inl e"
    by (cases "query_selector pg sel") auto
  show ?thesis
    by (induction pre) (simp_all add: e split: sum.splits option.splits)
qed

lemma not_busy_all_raise:
  assumes "\<forall>sel\<in>set DEEP_RESEARCH_LOADING_SELECTORS. isl (query_selector pg sel)"
    and "isl (query_selector_all pg spinner_selector)"
  shows "\<not> busy pg"
proof -
  from assms(2) obtain e where "query_selector_all pg spinner_selector = Inl e"
    by (cases "query_selector_all pg spinner_selector") auto
  then show ?thesis
    by (simp add: busy_def loading_scan_all_raise[OF assms(1)] spinner_scan_def)
qed

lemma poll_loop_all_raise:
  assumes "t_loop ob < d"
    and "isl (query_selector_all (tick_page ob) source_selector)"
    and "\<forall>sel\<in>set DEEP_RESEARCH_LOADING_SELECTORS. isl (query_selector (tick_page ob) sel)"
    and "isl (query_selector_all (tick_page ob) spinner_selector)"
    and "isl (query_selector_all (tick_page ob) report_source_selector)"
  shows "poll_loop i s d st (ob # obs) =
     (if 5 \<le> stable_count st \<and> 0 < last_sources_count st - i
      then Some (st\<lparr>check_num := check_num st + 1\<rparr>, Complete Primary)
      else if 12 \<le> stable_count st \<and> 61 \<le> t_elapsed ob - s
      then Some (st\<lparr>check_num := check_num st + 1\<rparr>, Complete Fallback)
      else poll_loop i s d (st\<lparr>check_num := check_num st + 1\<rparr>) obs)"
proof -
  from assms(2) obtain e where "query_selector_all (tick_page ob) source_selector = Inl e"
    by (cases "query_selector_all (tick_page ob) source_selector") auto
  then have c: "sampled_count (tick_page ob) = None" by (simp add: sampled_count_def)
  from assms(5) obtain e' where "query_selector_all (tick_page ob) report_source_selector = Inl e'"
    by (cases "query_selector_all (tick_page ob) report_source_selector") auto
  then have m: "\<not> report_source_visible (tick_page ob)" by (simp add: report_source_visible_def)
  note b = not_busy_all_raise[OF assms(3,4)]
  show ?thesis
    using poll_loop_sampling_raised[OF c assms(1) m, of i s st obs] b
    by (simp add: elapsed_gt_60)
qed

lemma poll_loop_exit_reason_clock:
  assumes "poll_loop i s d st obs = Some (st', ex)"
  shows "case ex of
           Timed_out \<Rightarrow> \<exists>k<length obs. d \<le> t_loop (obs ! k)
         | Complete r \<Rightarrow>
             \<exists>k<length obs. t_loop (obs ! k) < d \<and>
               (if report_source_visible (tick_page (obs ! k)) then True
                else \<not> busy (tick_page (obs ! k))) \<and>
               (case r of
                  Primary \<Rightarrow> 5 \<le> stable_count st' \<and> 0 < last_sources_count st' - i
                | Fallback \<Rightarrow> 12 \<le> stable_count st' \<and> 61 \<le> t_elapsed (obs ! k) - s)"
  using poll_loop_exit_reason[OF assms] unfolding elapsed_gt_60 .

text \<open>
  C9, as the code has it. No raise of a sampling query leaves the loop. A raising source
  query leaves the stored count and the stability counter as they were. A raising
  loading-indicator query is passed over as if its selector were not in the list, so
  that an iteration in which every loading query raises reads as not loading. In an
  iteration inside the deadline in which every query raises, the loop is left when a
  completion rule holds for the stored count and counter, and goes on to the next
  iteration with both unchanged otherwise. Whenever the loop is left, it is by the failed
  loop test at an iteration at or past the deadline, or by a completion rule that holds
  at an iteration inside it.
\<close>

theorem sampling_errors_read_as_no_signal:
  "(query_selector_all (tick_page ob) source_selector = Inl e \<longrightarrow>
      sample_sources (tick_page ob) st = st) \<and>
   (DEEP_RESEARCH_LOADING_SELECTORS = pre @ sel # post \<and> isl (query_selector pg sel) \<longrightarrow>
      loading_scan pg DEEP_RESEARCH_LOADING_SELECTORS = loading_scan pg (pre @ post)) \<and>
   ((\<forall>sel\<in>set DEEP_RESEARCH_LOADING_SELECTORS. isl (query_selector pg sel)) \<and>
    isl (query_selector_all pg spinner_selector) \<longrightarrow> \<not> busy pg) \<and>
   (t_loop ob < deadline \<and>
    isl (query_selector_all (tick_page ob) source_selector) \<and>
    (\<forall>sel\<in>set DEEP_RESEARCH_LOADING_SELECTORS. isl (query_selector (tick_page ob) sel)) \<and>
    isl (query_selector_all (tick_page ob) spinner_selector) \<and>
    isl (query_selector_all (tick_page ob) report_source_selector) \<longrightarrow>
      poll_loop initial start deadline st (ob # obs) =
        (if 5 \<le> stable_count st \<and> 0 < last_sources_count st - initial
         then Some (st\<lparr>check_num := check_num st + 1\<rparr>, Complete Primary)
         else if 12 \<le> stable_count st \<and> 61 \<le> t_elapsed ob - start
         then Some (st\<lparr>check_num := check_num st + 1\<rparr>, Complete Fallback)
         else poll_loop initial start deadline (st\<lparr>check_num := check_num st + 1\<rparr>) obs)) \<and>
   (poll_loop initial start deadline st all_obs = Some (st', ex) \<longrightarrow>
      (case ex of
         Timed_out \<Rightarrow> \<exists>k<length all_obs. deadline \<le> t_loop (all_obs ! k)
       | Complete r \<Rightarrow>
           \<exists>k<length all_obs. t_loop (all_obs ! k) < deadline \<and>
             (if report_source_visible (tick_page (all_obs ! k)) then True
              else \<not> busy (tick_page (all_obs ! k))) \<and>
             (case r of
                Primary \<Rightarrow> 5 \<le> stable_count st' \<and> 0 < last_sources_count st' - initial
              | Fallback \<Rightarrow>
                  12 \<le> stable_count st' \<and> 61 \<le> t_elapsed (all_obs ! k) - start)))"
proof -
  have a: "query_selector_all (tick_page ob) source_selector = Inl e \<longrightarrow>
      sample_sources (tick_page ob) st = st"
    by (simp add: sample_sources_def)
  have b: "DEEP_RESEARCH_LOADING_SELECTORS = pre @ sel # post \<and> isl (query_selector pg sel) \<longrightarrow>
      loading_scan pg DEEP_RESEARCH_LOADING_SELECTORS = loading_scan pg (pre @ post)"
    using loading_scan_skip[of pg sel pre post] by auto
  have c: "(\<forall>sel\<in>set DEEP_RESEARCH_LOADING_SELECTORS. isl (query_selector pg sel)) \<and>
    isl (query_selector_all pg spinner_selector) \<longrightarrow> \<not> busy pg"
    using not_busy_all_raise[of pg] by blast
  have d: "t_loop ob < deadline \<and>
    isl (query_selector_all (tick_page ob) source_selector) \<and>
    (\<forall>sel\<in>set DEEP_RESEARCH_LOADING_SELECTORS. isl (query_selector (tick_page ob) sel)) \<and>
    isl (query_selector_all (tick_page ob) spinner_selector) \<and>
    isl (query_selector_all (tick_page ob) report_source_selector) \<longrightarrow>
      poll_loop initial start deadline st (ob # obs) =
        (if 5 \<le> stable_count st \<and> 0 < last_sources_count st - initial
         then Some (st\<lparr>check_num := check_num st + 1\<rparr>, Complete Primary)
         else if 12 \<le> stable_count st \<and> 61 \<le> t_elapsed ob - start
         then Some (st\<lparr>check_num := check_num st + 1\<rparr>, Complete Fallback)
         else poll_loop initial start deadline (st\<lparr>check_num := check_num st + 1\<rparr>) obs)"
    using poll_loop_all_raise[of ob deadline initial start st obs] by blast
  have e: "poll_loop initial start deadline st all_obs = Some (st', ex) \<longrightarrow>
      (case ex of
         Timed_out \<Rightarrow> \<exists>k<length all_obs. deadline \<le> t_loop (all_obs ! k)
       | Complete r \<Rightarrow>
           \<exists>k<length all_obs. t_loop (all_obs ! k) < deadline \<and>
             (if report_source_visible (tick_page (all_obs ! k)) then True
              else \<not> busy (tick_page (all_obs ! k))) \<and>
             (case r of
                Primary \<Rightarrow> 5 \<le> stable_count st' \<and> 0 < last_sources_count st' - initial
              | Fallback \<Rightarrow>
                  12 \<le> stable_count st' \<and> 61 \<le> t_elapsed (all_obs ! k) - start))"
    using poll_loop_exit_reason_clock[of initial start deadline st all_obs st' ex] by (rule impI)
  show ?thesis by (rule conjI[OF a conjI[OF b conjI[OF c conjI[OF d e]]]])
qed

lemma raising_page_raises:
  "isl (query_selector_all raising_page sel)" "isl (query_selector raising_page sel)"
  by (simp_all add: raising_page_def)

lemma busy_page_signals:
  "sampled_count (busy_page n) = Some (int n)"
  "busy (busy_page n)"
  "\<not> report_source_visible (busy_page n)"
  by (simp_all add: sampled_count_def busy_def report_source_visible_def busy_page_def
      sources_page_queries DEEP_RESEARCH_LOADING_SELECTORS_def visible_element_def)

lemma poll_tick_busy:
  "poll_tick i 0 st (tick_at t (busy_page n)) =
     (if int n \<noteq> last_sources_count st
      then (st\<lparr>check_num := check_num st + 1, last_sources_count := int n, stable_count := 0\<rparr>,
            None)
      else (st\<lparr>check_num := check_num st + 1, stable_count := stable_count st + 1\<rparr>, None))"
proof (cases "int n = last_sources_count st")
  case True
  then have "sample_sources (busy_page n) (st\<lparr>check_num := check_num st + 1\<rparr>) =
      st\<lparr>check_num := check_num st + 1, stable_count := stable_count st + 1\<rparr>"
    using sample_sources_same[of "busy_page n" "st\<lparr>check_num := check_num st + 1\<rparr>"]
      busy_page_signals(1)[of n] by simp
  with True show ?thesis
    by (simp add: poll_tick_alt Let_def tick_at_def busy_page_signals)
next
  case False
  have "poll_tick i 0 st (tick_at t (busy_page n)) =
     (st\<lparr>check_num := check_num st + 1, last_sources_count := int n, stable_count := 0\<rparr>, None)"
    by (rule poll_tick_change) (use False in \<open>simp_all add: tick_at_def busy_page_signals\<close>)
  with False show ?thesis by simp
qed

lemma busy_ticks_run:
  "poll_loop 5 0 600 \<lparr>last_sources_count = 5, stable_count = 0, check_num = 0\<rparr>
     (busy_ticks @ rest) =
   poll_loop 5 0 600 \<lparr>last_sources_count = 8, stable_count = 5, check_num = 6\<rparr> rest"
  by (simp add: busy_ticks_def poll_tick_busy t_loop_tick_at eval_nat_numeral)

text \<open>
  C9 as stated fails: after a change from 5 to 8 and five more iterations that are
  loading, an iteration in which every query raises is read as not loading, and the
  primary rule ends the loop there; the same iteration still loading does not.
\<close>

theorem raising_tick_completes_where_busy_tick_continues:
  "busy (busy_page 8) \<and>
   poll_loop 5 0 600 \<lparr>last_sources_count = 5, stable_count = 0, check_num = 0\<rparr>
     (busy_ticks @ [tick_at 60 (busy_page 8)]) = None \<and>
   isl (query_selector_all raising_page source_selector) \<and>
   isl (query_selector raising_page (DEEP_RESEARCH_LOADING_SELECTORS ! 0)) \<and>
   poll_loop 5 0 600 \<lparr>last_sources_count = 5, stable_count = 0, check_num = 0\<rparr>
     (busy_ticks @ [tick_at 60 raising_page]) =
     Some (\<lparr>last_sources_count = 8, stable_count = 5, check_num = 7\<rparr>, Complete Primary)"
proof -
  have r: "poll_loop 5 0 600 \<lparr>last_sources_count = 8, stable_count = 5, check_num = 6\<rparr>
      [tick_at 60 raising_page] =
      Some (\<lparr>last_sources_count = 8, stable_count = 5, check_num = 7\<rparr>, Complete Primary)"
    using poll_loop_all_raise[of "tick_at 60 raising_page" 600 5 0
        "\<lparr>last_sources_count = 8, stable_count = 5, check_num = 6\<rparr>" "[]"]
    by (simp add: tick_at_def raising_page_raises)
  have b: "poll_loop 5 0 600 \<lparr>last_sources_count = 8, stable_count = 5, check_num = 6\<rparr>
      [tick_at 60 (busy_page 8)] = None"
    by (simp add: poll_tick_busy t_loop_tick_at)
  show ?thesis
    unfolding busy_ticks_run r b by (simp add: busy_page_signals raising_page_raises)
qed

theorem sampling_errors_read_as_no_signal_witness:
  "isl (query_selector_all (tick_page (tick_at 50 raising_page)) source_selector) \<and>
   \<not> busy raising_page \<and>
   sample_sources (tick_page (tick_at 50 raising_page))
     \<lparr>last_sources_count = 8, stable_count = 3, check_num = 4\<rparr> =
     \<lparr>last_sources_count = 8, stable_count = 3, check_num = 4\<rparr> \<and>
   poll_loop 5 0 600 \<lparr>last_sources_count = 8, stable_count = 3, check_num = 4\<rparr>
     (tick_at 50 raising_page # steady_ticks 8 6 8) =
     Some (\<lparr>last_sources_count = 8, stable_count = 5, check_num = 7\<rparr>, Complete Primary) \<and>
   poll_loop 5 0 600 \<lparr>last_sources_count = 8, stable_count = 5, check_num = 6\<rparr>
     [tick_at 60 raising_page] =
     Some (\<lparr>last_sources_count = 8, stable_count = 5, check_num = 7\<rparr>, Complete Primary)"
proof -
  let ?st = "\<lparr>last_sources_count = 8, stable_count = 3, check_num = 4\<rparr>"
  let ?st1 = "\<lparr>last_sources_count = 8, stable_count = 3, check_num = 5\<rparr>"
  let ?st5 = "\<lparr>last_sources_count = 8, stable_count = 5, check_num = 6\<rparr>"
  have r: "t_loop (tick_at t raising_page) < 600"
    "isl (query_selector_all (tick_page (tick_at t raising_page)) source_selector)"
    "\<forall>sel\<in>set DEEP_RESEARCH_LOADING_SELECTORS.
       isl (query_selector (tick_page (tick_at t raising_page)) sel)"
    "isl (query_selector_all (tick_page (tick_at t raising_page)) spinner_selector)"
    "isl (query_selector_all (tick_page (tick_at t raising_page)) report_source_selector)"
    if "t < 600" for t
    using that by (simp_all add: tick_at_def raising_page_raises)
  have src: "query_selector_all (tick_page (tick_at 50 raising_page)) source_selector =
      Inl (Exception ''Target closed'')"
    by (simp add: tick_at_def raising_page_def)
  have q: "\<forall>ob\<in>set (steady_ticks 8 6 8). quiet_tick 600 (last_sources_count ?st1) ob"
    using steady_ticks_quiet[of 8 8 6] by simp
  have rest: "poll_loop 5 0 600 ?st1 (steady_ticks 8 6 8) =
      Some (\<lparr>last_sources_count = 8, stable_count = 5, check_num = 7\<rparr>, Complete Primary)"
    using quiet_run_primary[OF q, of 5 0] by (simp add: steady_ticks_length)
  note inst = sampling_errors_read_as_no_signal[where ob = "tick_at 50 raising_page"
      and st = ?st and deadline = 600 and initial = 5 and start = 0
      and obs = "steady_ticks 8 6 8" and pg = raising_page
      and e = "Exception ''Target closed''"]
  note inst5 = sampling_errors_read_as_no_signal[where ob = "tick_at 60 raising_page"
      and st = ?st5 and deadline = 600 and initial = 5 and start = 0 and obs = "[]"]
  from inst src have a: "sample_sources (tick_page (tick_at 50 raising_page)) ?st = ?st"
    by blast
  from inst have b: "\<not> busy raising_page"
    by (simp add: raising_page_raises)
  from inst r[of 50] have c: "poll_loop 5 0 600 ?st (tick_at 50 raising_page # steady_ticks 8 6 8) =
      poll_loop 5 0 600 ?st1 (steady_ticks 8 6 8)"
    by simp
  from inst5 r[of 60] have d: "poll_loop 5 0 600 ?st5 [tick_at 60 raising_page] =
      Some (\<lparr>last_sources_count = 8, stable_count = 5, check_num = 7\<rparr>, Complete Primary)"
    by simp
  show ?thesis using a b c d rest r(2)[of 50] by simp
qed



subsection \<open>The extraction chain\<close>

lemma max_by_len_in: "max_by_len b ts \<in> set (b # ts)"
  by (induction ts arbitrary: b) auto

lemma max_by_len_ge: "u \<in> set (b # ts) \<Longrightarrow> length u \<le> length (max_by_len b ts)"
proof (induction ts arbitrary: b u)
  case Nil
  then show ?case by simp
next
  case (Cons t ts)
  let ?b' = "if length b < length t then t else b"
  have b': "length b \<le> length ?b'" "length t \<le> length ?b'" by simp_all
  have keep: "length ?b' \<le> length (max_by_len ?b' ts)"
    by (rule Cons.IH) simp
  from Cons.prems consider "u = b" | "u = t" | "u \<in> set ts" by auto
  then show ?case
  proof cases
    case 1
    then show ?thesis using b'(1) keep by simp
  next
    case 2
    then show ?thesis using b'(2) keep by simp
  next
    case 3
    then have "u \<in> set (?b' # ts)" by simp
    from Cons.IH[OF this] show ?thesis by simp
  qed
qed

lemma collect_texts_set:
  "collect_texts n els = Inr ts \<Longrightarrow>
   set ts = {strip raw | el raw. el \<in> set els \<and> is_visible el = Inr True \<and>
                inner_text el = Inr raw \<and> n < length (strip raw)}"
proof (induction els arbitrary: ts)
  case Nil
  then show ?case by simp
next
  case (Cons el els)
  show ?case
  proof (cases "is_visible el")
    case (Inl e)
    with Cons.prems show ?thesis by simp
  next
    case (Inr v)
    show ?thesis
    proof (cases v)
      case False
      with Inr Cons.prems have "collect_texts n els = Inr ts" by simp
      from Cons.IH[OF this] show ?thesis using Inr False by auto
    next
      case True
      show ?thesis
      proof (cases "inner_text el")
        case (Inl e)
        with Inr True Cons.prems show ?thesis by simp
      next
        case raw: (Inr raw)
        from Inr True raw Cons.prems obtain ts' where
          r: "collect_texts n els = Inr ts'"
          and ts: "ts = (if n < length (strip raw) then strip raw # ts' else ts')"
          by (auto split: sum.splits if_splits)
        from Cons.IH[OF r] show ?thesis using Inr True raw ts by auto
      qed
    qed
  qed
qed

lemma collect_texts_no_raise: "no_raise els \<Longrightarrow> collect_texts n els = Inr (long_texts n els)"
proof (induction els)
  case Nil
  then show ?case by (simp add: long_texts_def)
next
  case (Cons el els)
  then have rest: "collect_texts n els = Inr (long_texts n els)"
    by (simp add: no_raise_def)
  show ?case
  proof (cases "is_visible el")
    case (Inl e)
    with Cons.prems show ?thesis by (simp add: no_raise_def)
  next
    case (Inr v)
    show ?thesis
    proof (cases v)
      case False
      have "long_texts n (el # els) = long_texts n els"
        using Inr False by (simp add: long_texts_def)
      then show ?thesis using Inr False rest by simp
    next
      case True
      with Inr Cons.prems obtain raw where raw: "inner_text el = Inr raw"
        by (cases "inner_text el") (simp_all add: no_raise_def)
      have "long_texts n (el # els) =
          (if n < length (strip raw) then strip raw # long_texts n els else long_texts n els)"
        using Inr True raw by (simp add: long_texts_def)
      then show ?thesis using Inr True raw rest by simp
    qed
  qed
qed

lemma collect_texts_raise: "\<not> no_raise els \<Longrightarrow> isl (collect_texts n els)"
proof (induction els)
  case Nil
  then show ?case by (simp add: no_raise_def)
next
  case (Cons el els)
  show ?case
  proof (cases "is_visible el")
    case (Inl e)
    then show ?thesis by simp
  next
    case (Inr v)
    show ?thesis
    proof (cases v)
      case False
      with Inr Cons.prems have "\<not> no_raise els" by (simp add: no_raise_def)
      from Cons.IH[OF this] have "isl (collect_texts n els)" .
      then show ?thesis using Inr False by simp
    next
      case True
      show ?thesis
      proof (cases "inner_text el")
        case (Inl e)
        with Inr True show ?thesis by simp
      next
        case raw: (Inr raw)
        with Inr True Cons.prems have "\<not> no_raise els" by (simp add: no_raise_def)
        from Cons.IH[OF this] obtain e where "collect_texts n els = Inl e"
          by (cases "collect_texts n els") auto
        with Inr True raw show ?thesis by simp
      qed
    qed
  qed
qed

lemma selector_texts_min_length: "t \<in> set (selector_texts pg sel) \<Longrightarrow> 100 < length t"
  by (auto simp: selector_texts_def long_texts_def split: sum.splits if_splits)

lemma chat_scan_step:
  "chat_scan pg (sel # sels) =
     (case selector_texts pg sel of
        [] \<Rightarrow> chat_scan pg sels
      | t # ts \<Rightarrow> Some (max_by_len t ts))"
proof (cases "query_selector_all pg sel")
  case (Inl e)
  then show ?thesis by (simp add: selector_texts_def)
next
  case (Inr els)
  show ?thesis
  proof (cases "no_raise els")
    case True
    have "long_texts 100 [] = []" by (simp add: long_texts_def)
    with Inr True collect_texts_no_raise[OF True, of 100] show ?thesis
      by (cases "long_texts 100 els") (auto simp: selector_texts_def)
  next
    case False
    then have "els \<noteq> []" by (auto simp: no_raise_def)
    moreover from collect_texts_raise[OF False, of 100] obtain e
      where "collect_texts 100 els = Inl e"
      by (cases "collect_texts 100 els") auto
    ultimately show ?thesis using Inr False by (simp add: selector_texts_def)
  qed
qed

lemma chat_scan_none:
  "\<forall>s\<in>set sels. selector_texts pg s = [] \<Longrightarrow> chat_scan pg sels = None"
  by (induction sels) (simp_all add: chat_scan_step del: chat_scan.simps(2))

lemma chat_scan_skip:
  "\<forall>s\<in>set pre. selector_texts pg s = [] \<Longrightarrow> chat_scan pg (pre @ sels) = chat_scan pg sels"
  by (induction pre) (simp_all add: chat_scan_step del: chat_scan.simps(2))

lemma chat_scan_first:
  assumes "\<forall>s\<in>set pre. selector_texts pg s = []" and "selector_texts pg sel \<noteq> []"
  shows "\<exists>t. chat_scan pg (pre @ sel # post) = Some t \<and> t \<in> set (selector_texts pg sel) \<and>
           (\<forall>u\<in>set (selector_texts pg sel). length u \<le> length t)"
proof -
  from assms(2) obtain c cs where c: "selector_texts pg sel = c # cs"
    by (cases "selector_texts pg sel") auto
  have "chat_scan pg (pre @ sel # post) = Some (max_by_len c cs)"
    unfolding chat_scan_skip[OF assms(1)] chat_scan_step c by simp
  then show ?thesis unfolding c using max_by_len_in[of c cs] max_by_len_ge[of _ c cs] by blast
qed

text \<open>
  C7, as the code has it. Strategy 1 takes the chat selectors in their order. A selector
  is passed over when its query raises, when a call on one of its handles raises, or when
  none of its visible handles has a stripped text longer than 100. At the first selector
  that is not passed over, strategy 1 returns the longest of the stripped texts, longer
  than 100, of that selector's visible handles, and reads no later selector. When every
  selector is passed over it returns nothing.
\<close>

theorem strategy1_longest_of_first_selector:
  "(chat_selectors = pre @ sel # post \<and> (\<forall>s\<in>set pre. selector_texts pg s = []) \<and>
    query_selector_all pg sel = Inr els \<and> no_raise els \<and> long_texts 100 els \<noteq> [] \<longrightarrow>
      (\<exists>t. strategy1 pg = Some t \<and> t \<in> set (long_texts 100 els) \<and>
           (\<forall>u\<in>set (long_texts 100 els). length u \<le> length t))) \<and>
   ((\<forall>s\<in>set chat_selectors. selector_texts pg s = []) \<longrightarrow> strategy1 pg = None)"
proof -
  have a: "chat_selectors = pre @ sel # post \<and> (\<forall>s\<in>set pre. selector_texts pg s = []) \<and>
    query_selector_all pg sel = Inr els \<and> no_raise els \<and> long_texts 100 els \<noteq> [] \<longrightarrow>
      (\<exists>t. strategy1 pg = Some t \<and> t \<in> set (long_texts 100 els) \<and>
           (\<forall>u\<in>set (long_texts 100 els). length u \<le> length t))"
  proof
    assume h: "chat_selectors = pre @ sel # post \<and> (\<forall>s\<in>set pre. selector_texts pg s = []) \<and>
      query_selector_all pg sel = Inr els \<and> no_raise els \<and> long_texts 100 els \<noteq> []"
    then have st: "selector_texts pg sel = long_texts 100 els"
      by (simp add: selector_texts_def)
    from h have "strategy1 pg = chat_scan pg (pre @ sel # post)" by (simp add: strategy1_def)
    with chat_scan_first[of pre pg sel post] h st show
      "\<exists>t. strategy1 pg = Some t \<and> t \<in> set (long_texts 100 els) \<and>
           (\<forall>u\<in>set (long_texts 100 els). length u \<le> length t)" by simp
  qed
  have b: "(\<forall>s\<in>set chat_selectors. selector_texts pg s = []) \<longrightarrow> strategy1 pg = None"
    using chat_scan_none[of chat_selectors pg] by (simp add: strategy1_def)
  show ?thesis using a b by (rule conjI)
qed

lemma strip_replicate: "\<not> py_isspace c \<Longrightarrow> strip (replicate n c) = replicate n c"
  by (simp add: strip_def)

lemma not_space_letters:
  "\<not> py_isspace (CHR ''a'')" "\<not> py_isspace (CHR ''b'')" "\<not> py_isspace (CHR ''c'')"
  by (simp_all add: py_isspace_def)

lemma strip_Loading: "strip ''Loading'' = ''Loading''"
  by (simp add: strip_def py_isspace_def)

lemma chat_page_first_selector:
  "query_selector_all chat_page ''.to-user-container .message-text-content'' =
     Inr chat_page_messages"
  "no_raise chat_page_messages"
  "long_texts 100 chat_page_messages = [replicate 101 (CHR ''a''), replicate 150 (CHR ''b'')]"
  by (simp_all add: chat_page_def chat_page_messages_def no_raise_def long_texts_def
      visible_element_def hidden_element_def strip_replicate not_space_letters strip_Loading)

theorem strategy1_longest_of_first_selector_witness:
  "query_selector_all chat_page ''.to-user-container .message-text-content'' =
     Inr chat_page_messages \<and>
   no_raise chat_page_messages \<and>
   long_texts 100 chat_page_messages = [replicate 101 (CHR ''a''), replicate 150 (CHR ''b'')] \<and>
   strategy1 chat_page = Some (replicate 150 (CHR ''b''))"
proof -
  let ?sel = "''.to-user-container .message-text-content''"
  have sels: "chat_selectors = [] @ ?sel # tl chat_selectors"
    by (simp add: chat_selectors_def)
  from strategy1_longest_of_first_selector[of "[]" ?sel "tl chat_selectors" chat_page
      chat_page_messages, THEN conjunct1] sels
  obtain t where t: "strategy1 chat_page = Some t"
    "t \<in> set (long_texts 100 chat_page_messages)"
    "\<forall>u\<in>set (long_texts 100 chat_page_messages). length u \<le> length t"
    by (auto simp: chat_page_first_selector)
  from t(3) have "150 \<le> length t" by (simp add: chat_page_first_selector)
  with t(2) have "t = replicate 150 (CHR ''b'')" by (auto simp: chat_page_first_selector)
  with t(1) show ?thesis by (simp add: chat_page_first_selector)
qed

text \<open>
  C7 as stated fails: the first chat selector has visible texts of 101 and 150
  characters, the second a visible text of 300 characters; strategy 1 returns the one of
  150 characters.
\<close>

theorem strategy1_not_longest_overall:
  "strategy1 chat_page = Some (replicate 150 (CHR ''b'')) \<and>
   query_selector_all chat_page ''[data-message-author='bot']'' =
     Inr [visible_element (replicate 300 (CHR ''c''))] \<and>
   is_visible (visible_element (replicate 300 (CHR ''c''))) = Inr True \<and>
   length (strip (replicate 300 (CHR ''c''))) = 300"
proof -
  have "selector_texts chat_page ''.to-user-container .message-text-content'' =
      [replicate 101 (CHR ''a''), replicate 150 (CHR ''b'')]"
    by (simp add: selector_texts_def chat_page_first_selector)
  then have "strategy1 chat_page = Some (replicate 150 (CHR ''b''))"
    by (simp add: strategy1_def chat_selectors_def chat_scan_step del: chat_scan.simps(2))
  moreover have "query_selector_all chat_page ''[data-message-author='bot']'' =
     Inr [visible_element (replicate 300 (CHR ''c''))]"
    by (simp add: chat_page_def)
  ultimately show ?thesis
    by (simp add: visible_element_def strip_replicate not_space_letters)
qed

lemma collect_texts_min_length:
  "collect_texts n els = Inr ts \<Longrightarrow> t \<in> set ts \<Longrightarrow> n < length t"
  using collect_texts_set[of n els ts] by auto

lemma join_length: "length t \<le> length (join sep (t # ts))"
  by (cases ts) simp_all

lemma chat_scan_min_length: "chat_scan pg sels = Some t \<Longrightarrow> 100 < length t"
proof (induction sels)
  case Nil
  then show ?case by simp
next
  case (Cons sel sels)
  show ?case
  proof (cases "selector_texts pg sel")
    case Nil
    with Cons show ?thesis by (simp add: chat_scan_step del: chat_scan.simps(2))
  next
    case (Cons c cs)
    with Cons.prems have t: "t = max_by_len c cs"
      by (simp add: chat_scan_step del: chat_scan.simps(2))
    have "t \<in> set (c # cs)" unfolding t by (rule max_by_len_in)
    then have "t \<in> set (selector_texts pg sel)" using Cons by simp
    then show ?thesis by (rule selector_texts_min_length)
  qed
qed

lemma report_scan_min_length: "report_scan pg sels = Some t \<Longrightarrow> 50 < length t"
proof (induction sels)
  case Nil
  then show ?case by simp
next
  case (Cons sel sels)
  show ?case
  proof (cases "report_scan pg sels = Some t")
    case True
    then show ?thesis by (rule Cons.IH)
  next
    case False
    with Cons.prems obtain els c cs where
      c: "collect_texts 50 els = Inr (c # cs)" "t = join [CHR 0x0A, CHR 0x0A] (c # cs)"
      by (auto split: sum.splits list.splits if_splits)
    from collect_texts_min_length[OF c(1), of c] have "50 < length c" by simp
    with join_length[of c "[CHR 0x0A, CHR 0x0A]" cs] show ?thesis unfolding c(2) by linarith
  qed
qed

lemma opened_scan_min_length: "opened_scan pg sels = Some t \<Longrightarrow> 200 < length t"
  by (induction sels) (auto split: sum.splits option.splits if_splits)

subsection \<open>The outcome of \<^verbatim>\<open>run_deep_research\<close>\<close>

lemma strategy2_keeps: "\<not> falsy r \<Longrightarrow> strategy2 pg r = r"
  by (simp add: strategy2_def)

lemma strategy3_keeps: "\<not> falsy r \<Longrightarrow> strategy3 click pg r = r"
  by (simp add: strategy3_def)

lemma strategy4_keeps: "\<not> falsy r \<Longrightarrow> strategy4 pg r = r"
  by (simp add: strategy4_def)

lemma strategy5_keeps: "\<not> falsy r \<Longrightarrow> strategy5 pg r = r"
  by (simp add: strategy5_def)

lemma falsy_None: "falsy None"
  by (simp add: falsy_def)

lemma strategy2_falsy: "falsy r \<Longrightarrow> falsy (strategy2 pg r) = falsy (strategy2 pg None)"
  by (simp add: strategy2_def falsy_None split: option.splits)

lemma strategy3_falsy:
  "falsy r \<Longrightarrow> falsy (strategy3 click pg r) = falsy (strategy3 click pg None)"
  by (simp add: strategy3_def falsy_None split: option.splits sum.splits)

lemma strategy4_falsy: "falsy r \<Longrightarrow> falsy (strategy4 pg r) = falsy (strategy4 pg None)"
  by (simp add: strategy4_def falsy_None split: option.splits sum.splits)

lemma strategy5_falsy: "falsy r \<Longrightarrow> falsy (strategy5 pg r) = falsy (strategy5 pg None)"
  by (simp add: strategy5_def falsy_None split: option.splits sum.splits)

lemma capture_falsy_iff: "falsy (capture cap) \<longleftrightarrow> all_exhausted cap"
proof -
  let ?p0 = "page_at_exit cap" and ?p1 = "page_after_click cap" and ?c = "report_link_click cap"
  let ?r1 = "strategy1 ?p0"
  let ?r2 = "strategy2 ?p0 ?r1"
  let ?r3 = "strategy3 ?c ?p1 ?r2"
  let ?r4 = "strategy4 ?p1 ?r3"
  let ?r5 = "strategy5 ?p1 ?r4"
  have c: "capture cap = ?r5" by (simp add: capture_def)
  show ?thesis
  proof (cases "falsy ?r1")
    case False
    then have "?r5 = ?r1"
      by (simp add: strategy2_keeps strategy3_keeps strategy4_keeps strategy5_keeps)
    with False show ?thesis unfolding c by (simp add: all_exhausted_def)
  next
    case f1: True
    note e2 = strategy2_falsy[OF f1, of ?p0]
    show ?thesis
    proof (cases "falsy ?r2")
      case False
      then have "?r5 = ?r2" by (simp add: strategy3_keeps strategy4_keeps strategy5_keeps)
      with False e2 show ?thesis unfolding c by (simp add: all_exhausted_def)
    next
      case f2: True
      note e3 = strategy3_falsy[OF f2, of ?c ?p1]
      show ?thesis
      proof (cases "falsy ?r3")
        case False
        then have "?r5 = ?r3" by (simp add: strategy4_keeps strategy5_keeps)
        with False e3 show ?thesis unfolding c by (simp add: all_exhausted_def)
      next
        case f3: True
        note e4 = strategy4_falsy[OF f3, of ?p1]
        show ?thesis
        proof (cases "falsy ?r4")
          case False
          then have "?r5 = ?r4" by (simp add: strategy5_keeps)
          with False e4 show ?thesis unfolding c by (simp add: all_exhausted_def)
        next
          case f4: True
          note e5 = strategy5_falsy[OF f4, of ?p1]
          show ?thesis unfolding c using f1 f2 f3 f4 e2 e3 e4 e5
            by (simp add: all_exhausted_def)
        qed
      qed
    qed
  qed
qed

lemma body_text_not_exhausted:
  "page_inner_text (page_after_click cap) ''body'' = Inr t \<Longrightarrow> t \<noteq> [] \<Longrightarrow> \<not> all_exhausted cap"
  by (simp add: all_exhausted_def strategy5_def falsy_def)

lemma run_after_loop:
  assumes "setup_end env = Submitted" and "baseline_query env = Inr els"
    and "wait_for_completion env timeout (int (length els)) = Some (st, ex)"
  shows "run_deep_research env (Some timeout) =
     Some (if falsy (capture (capture_pages env))
           then \<lparr>success = False,
                 error = Some ''Could not capture research results'',
                 sources_count = Some (last_sources_count st - int (length els)),
                 total_sources = None,
                 elapsed_seconds = Some (py_int (end_clock env - start_clock env)),
                 report = None\<rparr>
           else \<lparr>success = True,
                 error = None,
                 sources_count = Some (last_sources_count st - int (length els)),
                 total_sources = Some (last_sources_count st),
                 elapsed_seconds = Some (py_int (end_clock env - start_clock env)),
                 report = capture (capture_pages env)\<rparr>)"
  using assms by (simp add: run_deep_research_def Let_def)

text \<open>
  C8, as the code has it. Once the loop is left, the run succeeds exactly when not all
  five strategies are exhausted; when they are, it returns the failure "Could not capture
  research results" with the item count and the elapsed time. A body text that is
  readable and not empty always gives success; an empty one counts as no text.
\<close>

theorem extraction_fails_only_when_all_exhausted:
  assumes "setup_end env = Submitted" and "baseline_query env = Inr els"
    and "wait_for_completion env timeout (int (length els)) = Some (st, ex)"
  shows "\<exists>out. run_deep_research env (Some timeout) = Some out \<and>
      (success out \<longleftrightarrow> \<not> all_exhausted (capture_pages env)) \<and>
      (all_exhausted (capture_pages env) \<longrightarrow>
         error out = Some ''Could not capture research results'' \<and>
         sources_count out = Some (last_sources_count st - int (length els)) \<and>
         elapsed_seconds out = Some (py_int (end_clock env - start_clock env))) \<and>
      (\<forall>t. page_inner_text (page_after_click (capture_pages env)) ''body'' = Inr t \<and> t \<noteq> []
         \<longrightarrow> success out \<and> report out \<noteq> None)"
proof (cases "all_exhausted (capture_pages env)")
  case True
  then have "falsy (capture (capture_pages env))" by (simp add: capture_falsy_iff)
  with True show ?thesis
    using run_after_loop[OF assms] body_text_not_exhausted[of "capture_pages env"] by auto
next
  case False
  then have nf: "\<not> falsy (capture (capture_pages env))" by (simp add: capture_falsy_iff)
  then have "capture (capture_pages env) \<noteq> None"
    by (cases "capture (capture_pages env)") (simp_all add: falsy_def)
  with False nf show ?thesis using run_after_loop[OF assms] by simp
qed

text \<open>
  C2, as the code has it. When the loop is left by the deadline, the extraction chain
  runs all the same: the run returns success with the report, the item counts and the
  elapsed time when the chain yields a text, and otherwise the failure "Could not capture
  research results" with the item count and the elapsed time. No outcome names a timeout.
\<close>

theorem timed_out_run_still_extracts:
  assumes "setup_end env = Submitted" and "baseline_query env = Inr els"
    and "wait_for_completion env timeout (int (length els)) = Some (st, Timed_out)"
  shows "run_deep_research env (Some timeout) =
     Some (if falsy (capture (capture_pages env))
           then \<lparr>success = False,
                 error = Some ''Could not capture research results'',
                 sources_count = Some (last_sources_count st - int (length els)),
                 total_sources = None,
                 elapsed_seconds = Some (py_int (end_clock env - start_clock env)),
                 report = None\<rparr>
           else \<lparr>success = True,
                 error = None,
                 sources_count = Some (last_sources_count st - int (length els)),
                 total_sources = Some (last_sources_count st),
                 elapsed_seconds = Some (py_int (end_clock env - start_clock env)),
                 report = capture (capture_pages env)\<rparr>)"
  using assms by (rule run_after_loop)

lemma chat_scan_no_elements:
  "(\<And>sel. query_selector_all pg sel = Inr []) \<Longrightarrow> chat_scan pg sels = None"
  by (induction sels) simp_all

lemma report_scan_no_elements:
  "(\<And>sel. query_selector_all pg sel = Inr []) \<Longrightarrow> report_scan pg sels = None"
  by (induction sels) simp_all

lemma capture_no_elements:
  assumes "\<And>sel. query_selector_all pg sel = Inr []"
  shows "capture \<lparr>page_at_exit = pg, report_link_click = Inl e, page_after_click = pg\<rparr> =
     strategy5 pg (strategy4 pg None)"
  by (simp add: capture_def strategy1_def strategy2_def strategy3_def falsy_None
      chat_scan_no_elements[OF assms] report_scan_no_elements[OF assms])

lemma example_run_capture_pages:
  "capture_pages (example_run obs t_end pg) =
     \<lparr>page_at_exit = pg, report_link_click = Inl (Exception ''Timeout 30000ms exceeded''),
      page_after_click = pg\<rparr>"
  by (simp add: example_run_def)

lemma capture_body_page:
  "capture (capture_pages (example_run obs t_end (body_page txt))) = Some txt"
proof -
  have q: "query_selector_all (body_page txt) sel = Inr []" for sel
    by (simp add: body_page_def blank_page_def)
  have s4: "strategy4 (body_page txt) None = None"
    by (simp add: strategy4_def falsy_None body_page_def blank_page_def)
  have s5: "strategy5 (body_page txt) None = Some txt"
    by (simp add: strategy5_def falsy_None body_page_def blank_page_def)
  show ?thesis
    unfolding example_run_capture_pages capture_no_elements[of "body_page txt", OF q] s4 s5 ..
qed

lemma capture_blank_page:
  "capture (capture_pages (example_run obs t_end blank_page)) = Some []"
proof -
  have q: "query_selector_all blank_page sel = Inr []" for sel
    by (simp add: blank_page_def)
  have s4: "strategy4 blank_page None = None"
    by (simp add: strategy4_def falsy_None blank_page_def)
  have s5: "strategy5 blank_page None = Some []"
    by (simp add: strategy5_def falsy_None blank_page_def)
  show ?thesis
    unfolding example_run_capture_pages capture_no_elements[of blank_page, OF q] s4 s5 ..
qed

lemma strip_Sources: "strip ''Sources'' = ''Sources''"
  by (simp add: strip_def py_isspace_def)

lemma strategy4_panel_page: "strategy4 (panel_page ''Sources'') None = Some ''Sources''"
proof -
  have "query_selector (panel_page ''Sources'') sources_panel_selector =
      Inr (Some (visible_element ''Sources''))"
    by (simp add: panel_page_def)
  then show ?thesis
    by (simp add: strategy4_def falsy_None visible_element_def strip_Sources)
qed

lemma capture_panel_page:
  "capture (capture_pages (example_run obs t_end (panel_page ''Sources''))) = Some ''Sources''"
proof -
  have q: "query_selector_all (panel_page ''Sources'') sel = Inr []" for sel
    by (simp add: panel_page_def blank_page_def)
  have s5: "strategy5 (panel_page ''Sources'') (Some ''Sources'') = Some ''Sources''"
    by (simp add: strategy5_def falsy_def)
  show ?thesis
    unfolding example_run_capture_pages capture_no_elements[of "panel_page ''Sources''", OF q]
      strategy4_panel_page s5 ..
qed

lemma example_run_fields:
  "setup_end (example_run obs t_end pg) = Submitted"
  "baseline_query (example_run obs t_end pg) = Inr (replicate 5 (visible_element ''source''))"
  "start_clock (example_run obs t_end pg) = 0"
  "end_clock (example_run obs t_end pg) = t_end"
  "ticks (example_run obs t_end pg) = obs"
  by (simp_all add: example_run_def)

lemma example_run_loop:
  "wait_for_completion (example_run obs t_end pg) timeout 5 =
     poll_loop 5 0 (real_of_int timeout)
       \<lparr>last_sources_count = 5, stable_count = 0, check_num = 0\<rparr> obs"
  by (simp add: wait_for_completion_def example_run_fields Let_def)

lemma timed_out_loop_same:
  "wait_for_completion (example_run (timed_out_ticks 5) t_end pg) 30 5 =
     Some (\<lparr>last_sources_count = 5, stable_count = 3, check_num = 3\<rparr>, Timed_out)"
  by (simp add: example_run_loop timed_out_ticks_def poll_tick_sources t_loop_tick_at)


lemma completed_loop:
  "wait_for_completion (example_run completed_ticks t_end pg) 600 5 =
     Some (\<lparr>last_sources_count = 8, stable_count = 5, check_num = 6\<rparr>, Complete Primary)"
  by (simp add: example_run_loop completed_ticks_def poll_tick_sources t_loop_tick_at)

lemma example_run_outcome:
  assumes "wait_for_completion (example_run obs t_end pg) timeout 5 = Some (st, ex)"
  shows "run_deep_research (example_run obs t_end pg) (Some timeout) =
     Some (if falsy (capture (capture_pages (example_run obs t_end pg)))
           then \<lparr>success = False,
                 error = Some ''Could not capture research results'',
                 sources_count = Some (last_sources_count st - 5),
                 total_sources = None,
                 elapsed_seconds = Some (py_int t_end),
                 report = None\<rparr>
           else \<lparr>success = True,
                 error = None,
                 sources_count = Some (last_sources_count st - 5),
                 total_sources = Some (last_sources_count st),
                 elapsed_seconds = Some (py_int t_end),
                 report = capture (capture_pages (example_run obs t_end pg))\<rparr>)"
  using run_after_loop[of "example_run obs t_end pg" "replicate 5 (visible_element ''source'')"
      timeout st ex] assms
  by (simp add: example_run_fields)

lemma timed_out_run_body:
  "run_deep_research (example_run (timed_out_ticks 5) 30 (body_page ''Notebook page text''))
     (Some 30) =
     Some \<lparr>success = True, error = None, sources_count = Some 0, total_sources = Some 5,
           elapsed_seconds = Some 30, report = Some ''Notebook page text''\<rparr>"
  by (simp add: example_run_outcome[OF timed_out_loop_same] capture_body_page falsy_def py_int_def)

lemma timed_out_run_blank:
  "run_deep_research (example_run (timed_out_ticks 5) 30 blank_page) (Some 30) =
     Some \<lparr>success = False, error = Some ''Could not capture research results'',
           sources_count = Some 0, total_sources = None,
           elapsed_seconds = Some 30, report = None\<rparr>"
  by (simp add: example_run_outcome[OF timed_out_loop_same] capture_blank_page falsy_def py_int_def)


lemma completed_run_blank:
  "run_deep_research (example_run completed_ticks 50 blank_page) (Some 600) =
     Some \<lparr>success = False, error = Some ''Could not capture research results'',
           sources_count = Some 3, total_sources = None,
           elapsed_seconds = Some 50, report = None\<rparr>"
  by (simp add: example_run_outcome[OF completed_loop] capture_blank_page falsy_def py_int_def)

lemma completed_run_body:
  "run_deep_research (example_run completed_ticks 50 (body_page ''Report text'')) (Some 600) =
     Some \<lparr>success = True, error = None, sources_count = Some 3, total_sources = Some 8,
           elapsed_seconds = Some 50, report = Some ''Report text''\<rparr>"
  by (simp add: example_run_outcome[OF completed_loop] capture_body_page falsy_def py_int_def)

lemma completed_run_panel:
  "run_deep_research (example_run completed_ticks 50 (panel_page ''Sources'')) (Some 600) =
     Some \<lparr>success = True, error = None, sources_count = Some 3, total_sources = Some 8,
           elapsed_seconds = Some 50, report = Some ''Sources''\<rparr>"
  by (simp add: example_run_outcome[OF completed_loop] capture_panel_page falsy_def py_int_def)

text \<open>
  C2 as stated fails: with a timeout of 30 seconds and three quiet iterations the loop is
  left by the deadline, and the run returns success with the body text as the report.
\<close>

theorem timed_out_run_returns_success:
  "wait_for_completion (example_run (timed_out_ticks 5) 30 (body_page ''Notebook page text'')) 30 5 =
     Some (\<lparr>last_sources_count = 5, stable_count = 3, check_num = 3\<rparr>, Timed_out) \<and>
   run_deep_research (example_run (timed_out_ticks 5) 30 (body_page ''Notebook page text''))
     (Some 30) =
     Some \<lparr>success = True, error = None, sources_count = Some 0, total_sources = Some 5,
           elapsed_seconds = Some 30, report = Some ''Notebook page text''\<rparr>"
  using timed_out_loop_same timed_out_run_body by (rule conjI)

theorem timed_out_run_still_extracts_witness:
  "wait_for_completion (example_run (timed_out_ticks 5) 30 blank_page) 30 5 =
     Some (\<lparr>last_sources_count = 5, stable_count = 3, check_num = 3\<rparr>, Timed_out) \<and>
   falsy (capture (capture_pages (example_run (timed_out_ticks 5) 30 blank_page))) \<and>
   run_deep_research (example_run (timed_out_ticks 5) 30 blank_page) (Some 30) =
     Some \<lparr>success = False, error = Some ''Could not capture research results'',
           sources_count = Some 0, total_sources = None,
           elapsed_seconds = Some 30, report = None\<rparr>"
proof -
  have f: "falsy (capture (capture_pages (example_run (timed_out_ticks 5) 30 blank_page)))"
    by (simp add: capture_blank_page falsy_def)
  have "run_deep_research (example_run (timed_out_ticks 5) 30 blank_page) (Some 30) =
     Some \<lparr>success = False, error = Some ''Could not capture research results'',
           sources_count = Some 0, total_sources = None,
           elapsed_seconds = Some 30, report = None\<rparr>"
    using timed_out_run_still_extracts[of "example_run (timed_out_ticks 5) 30 blank_page"
      "replicate 5 (visible_element ''source'')" 30
      "\<lparr>last_sources_count = 5, stable_count = 3, check_num = 3\<rparr>"] f
    by (simp add: timed_out_loop_same example_run_fields py_int_def)
  with f timed_out_loop_same show ?thesis by simp
qed

text \<open>
  C8 as stated fails: on a page where nothing matches and the body text is the empty
  string, the run returns the failure.
\<close>

theorem empty_body_text_fails_extraction:
  "page_inner_text (page_after_click (capture_pages (example_run completed_ticks 50 blank_page)))
     ''body'' = Inr [] \<and>
   run_deep_research (example_run completed_ticks 50 blank_page) (Some 600) =
     Some \<lparr>success = False, error = Some ''Could not capture research results'',
           sources_count = Some 3, total_sources = None,
           elapsed_seconds = Some 50, report = None\<rparr>"
proof -
  have "page_inner_text (page_after_click (capture_pages (example_run completed_ticks 50 blank_page)))
     ''body'' = Inr []"
    by (simp add: example_run_capture_pages blank_page_def)
  then show ?thesis using completed_run_blank by (rule conjI)
qed

theorem extraction_fails_only_when_all_exhausted_witness:
  "all_exhausted (capture_pages (example_run completed_ticks 50 blank_page)) \<and>
   run_deep_research (example_run completed_ticks 50 blank_page) (Some 600) =
     Some \<lparr>success = False, error = Some ''Could not capture research results'',
           sources_count = Some 3, total_sources = None,
           elapsed_seconds = Some 50, report = None\<rparr> \<and>
   \<not> all_exhausted (capture_pages (example_run completed_ticks 50 (body_page ''Report text''))) \<and>
   run_deep_research (example_run completed_ticks 50 (body_page ''Report text'')) (Some 600) =
     Some \<lparr>success = True, error = None, sources_count = Some 3, total_sources = Some 8,
           elapsed_seconds = Some 50, report = Some ''Report text''\<rparr>"
proof -
  let ?st = "\<lparr>last_sources_count = 8, stable_count = 5, check_num = 6\<rparr>"
  let ?A = "example_run completed_ticks 50 blank_page"
  let ?B = "example_run completed_ticks 50 (body_page ''Report text'')"
  from extraction_fails_only_when_all_exhausted[of ?A
        "replicate 5 (visible_element ''source'')" 600 ?st "Complete Primary"]
  obtain outA where "run_deep_research ?A (Some 600) = Some outA"
    "success outA \<longleftrightarrow> \<not> all_exhausted (capture_pages ?A)"
    by (auto simp: example_run_fields completed_loop)
  then have a: "all_exhausted (capture_pages ?A)" by (auto simp: completed_run_blank)
  from extraction_fails_only_when_all_exhausted[of ?B
        "replicate 5 (visible_element ''source'')" 600 ?st "Complete Primary"]
  obtain outB where "run_deep_research ?B (Some 600) = Some outB"
    "success outB \<longleftrightarrow> \<not> all_exhausted (capture_pages ?B)"
    by (auto simp: example_run_fields completed_loop)
  then have b: "\<not> all_exhausted (capture_pages ?B)" by (auto simp: completed_run_body)
  from a b completed_run_blank completed_run_body show ?thesis by simp
qed



text \<open>
  C3. The claim asks that strategy 4 returns no text of 50 characters or fewer.
  Evaluated on a page whose sources panel reads "Sources" (7 characters) and where
  strategies 1 to 3 find nothing: strategy 4 returns it, the chain does not go on to the
  body text, and the run succeeds with it as the report. Strategies 1 to 3 keep their
  thresholds (lemmas \<open>chat_scan_min_length\<close>, \<open>report_scan_min_length\<close>,
  \<open>opened_scan_min_length\<close>).
\<close>

theorem sources_panel_text_below_threshold_returned:
  "strategy4 (panel_page ''Sources'') None = Some ''Sources'' \<and>
   length ''Sources'' = 7 \<and>
   capture (capture_pages (example_run completed_ticks 50 (panel_page ''Sources''))) =
     Some ''Sources'' \<and>
   page_inner_text (panel_page ''Sources'') ''body'' = Inr ''Full text of the notebook page'' \<and>
   run_deep_research (example_run completed_ticks 50 (panel_page ''Sources'')) (Some 600) =
     Some \<lparr>success = True, error = None, sources_count = Some 3, total_sources = Some 8,
           elapsed_seconds = Some 50, report = Some ''Sources''\<rparr>"
proof -
  have "page_inner_text (panel_page ''Sources'') ''body'' = Inr ''Full text of the notebook page''"
    by (simp add: panel_page_def)
  then show ?thesis
    using strategy4_panel_page capture_panel_page[of completed_ticks 50] completed_run_panel
    by simp
qed

end
